theory Spec2Isabelle
  imports Complex_Main "HOL-Library.Word" "HOL-Library.Code_Target_Nat"
begin

section \<open>TinySolver (include/ceres/tiny_solver.h)\<close>

text \<open>
  The solver is a template over the cost function's \<open>Scalar\<close>. The model takes
  \<open>Scalar\<close> to be the exact reals: rounding, overflow and signed zeros are outside it.
  The one place where the control flow of \<open>Solve\<close> depends on a non-finite value,
  the quotient that defines \<open>rho\<close>, is written out (\<open>scalar_div\<close> below).

  Eigen vectors are lists; an Eigen matrix is its two dimensions and its coefficients
  in column-major order, the order in which \<open>&jacobian_(0, 0)\<close> hands the storage
  to the cost function. A member \<open>name_\<close> of the class is the field \<open>name_m\<close>.
\<close>

subsection \<open>Eigen operations used by the solver\<close>

type_synonym vec = "real list"

record matrix =
  nrows :: nat
  ncols :: nat
  coeffs :: "real list"

definition coeff :: "matrix \<Rightarrow> nat \<Rightarrow> nat \<Rightarrow> real" where
  "coeff M r c = coeffs M ! (c * nrows M + r)"

definition squaredNorm :: "vec \<Rightarrow> real" where
  "squaredNorm w = sum_list (map (\<lambda>t. t * t) w)"

definition norm_v :: "vec \<Rightarrow> real" where
  "norm_v w = sqrt (squaredNorm w)"

definition dot :: "vec \<Rightarrow> vec \<Rightarrow> real" where
  "dot p q = sum_list (map2 (*) p q)"

definition vec_add :: "vec \<Rightarrow> vec \<Rightarrow> vec" where
  "vec_add p q = map2 (+) p q"

definition scale :: "real \<Rightarrow> vec \<Rightarrow> vec" where
  "scale c w = map ((*) c) w"

text \<open>\<open>maxCoeff\<close> of an empty vector is an assertion failure in Eigen; the
  model leaves it unspecified, and nothing below evaluates it there.\<close>

fun maxCoeff :: "vec \<Rightarrow> real" where
  "maxCoeff (t # ts) = foldl max t ts"

definition diagonal :: "matrix \<Rightarrow> vec" where
  "diagonal M = map (\<lambda>k. coeff M k k) [0..<min (nrows M) (ncols M)]"

text \<open>\<open>M.diagonal().array() += d\<close>\<close>

definition add_to_diagonal :: "matrix \<Rightarrow> real \<Rightarrow> matrix" where
  "add_to_diagonal M d =
     M\<lparr>coeffs := fold (\<lambda>k cs. cs[k * nrows M + k := cs ! (k * nrows M + k) + d])
                       [0..<min (nrows M) (ncols M)] (coeffs M)\<rparr>"

text \<open>\<open>J.transpose() * J\<close>\<close>

definition transpose_times :: "matrix \<Rightarrow> matrix \<Rightarrow> matrix" where
  "transpose_times J K =
     \<lparr>nrows = ncols J, ncols = ncols K,
      coeffs = concat (map (\<lambda>c. map (\<lambda>r.
                 sum_list (map (\<lambda>k. coeff J k r * coeff K k c) [0..<nrows J]))
                 [0..<ncols J]) [0..<ncols K])\<rparr>"

text \<open>\<open>J.transpose() * w\<close>\<close>

definition transpose_times_vec :: "matrix \<Rightarrow> vec \<Rightarrow> vec" where
  "transpose_times_vec J w =
     map (\<lambda>c. sum_list (map (\<lambda>k. coeff J k c * w ! k) [0..<nrows J])) [0..<ncols J]"

text \<open>\<open>M * w\<close>\<close>

definition times_vec :: "matrix \<Rightarrow> vec \<Rightarrow> vec" where
  "times_vec M w =
     map (\<lambda>r. sum_list (map (\<lambda>c. coeff M r c * w ! c) [0..<ncols M])) [0..<nrows M]"

text \<open>Eigen's \<open>resize\<close> leaves the storage alone when the size does not change;
  otherwise the new coefficients are uninitialised, taken as zeros here.\<close>

definition resize_vec :: "nat \<Rightarrow> vec \<Rightarrow> vec" where
  "resize_vec n w = (if length w = n then w else replicate n 0)"

definition resize_mat :: "nat \<Rightarrow> nat \<Rightarrow> matrix \<Rightarrow> matrix" where
  "resize_mat r c M =
     (if nrows M = r \<and> ncols M = c then M
      else \<lparr>nrows = r, ncols = c, coeffs = resize_vec (r * c) (coeffs M)\<rparr>)"

subsection \<open>The quotient of two scalars\<close>

text \<open>\<open>Scalar\<close> is a floating-point type: a quotient by zero is an infinity or a
  NaN, not an error and not HOL's \<open>t / 0 = 0\<close>. The sign of a zero denominator is
  not represented; it is taken as positive.\<close>

datatype quotient = Finite real | PlusInfinity | MinusInfinity | NotANumber

definition scalar_div :: "real \<Rightarrow> real \<Rightarrow> quotient" where
  "scalar_div n d =
     (if d \<noteq> 0 then Finite (n / d)
      else if 0 < n then PlusInfinity
      else if n < 0 then MinusInfinity
      else NotANumber)"

text \<open>\<open>rho > 0\<close>\<close>

fun positive :: "quotient \<Rightarrow> bool" where
  "positive (Finite t) = (0 < t)"
| "positive PlusInfinity = True"
| "positive MinusInfinity = False"
| "positive NotANumber = False"

text \<open>\<open>std::max(1 / 3., 1 - tmp * tmp * tmp)\<close> with \<open>tmp = 2 * rho - 1\<close>, for a
  positive \<open>rho\<close>: at \<open>+inf\<close> the second argument is \<open>-inf\<close>.\<close>

fun damping_factor :: "quotient \<Rightarrow> real" where
  "damping_factor (Finite t) =
     (let tmp = 2 * t - 1 in max (1 / 3) (1 - tmp * tmp * tmp))"
| "damping_factor q = 1 / 3"

subsection \<open>Types of the solver\<close>

datatype Status =
    RUNNING
  | GRADIENT_TOO_SMALL
  | RELATIVE_STEP_SIZE_TOO_SMALL
  | ERROR_TOO_SMALL
  | HIT_MAX_ITERATIONS
  | FAILED_TO_EVALUATE_COST_FUNCTION
  | FAILED_TO_SOLVER_LINEAR_SYSTEM

record SolverParameters =
  gradient_threshold :: real
  relative_step_threshold :: real
  error_threshold :: real
  initial_scale_factor :: real
  max_iterations :: int

definition default_SolverParameters :: SolverParameters where
  "default_SolverParameters =
     \<lparr>gradient_threshold = 1 / 10 ^ 16, relative_step_threshold = 1 / 10 ^ 16,
      error_threshold = 1 / 10 ^ 16, initial_scale_factor = 1 / 10 ^ 3,
      max_iterations = 100\<rparr>"

text \<open>\<open>Results\<close>. \<open>num_failed_linear_solves\<close> is an \<open>int\<close> that nothing initialises and
  that \<open>Solve\<close> only increments: it is a 32-bit word, read as a signed number by \<open>sint\<close>,
  and \<open>+ 1\<close> wraps around from \<open>2147483647\<close> to \<open>-2147483648\<close>. \<open>iterations\<close> receives the
  loop counter \<open>i\<close>, which stays between 0 and \<open>max_iterations\<close>.\<close>

record Results =
  error_magnitude :: real
  gradient_magnitude :: real
  num_failed_linear_solves :: "32 word"
  iterations :: int
  status :: Status

text \<open>
  The cost function. \<open>NUM_RESIDUALS\<close> and \<open>NUM_PARAMETERS\<close> are \<open>None\<close> for
  \<open>Eigen::Dynamic\<close>. \<open>operator()\<close> receives the parameters and the two output
  buffers and returns its flag with the buffers as it leaves them:
  \<open>call_jacobian\<close> is the call with a jacobian buffer, \<open>call_null\<close> the call with
  \<open>jacobian == NULL\<close>.
\<close>

record Function =
  NUM_RESIDUALS :: "nat option"
  NUM_PARAMETERS :: "nat option"
  NumResiduals :: nat
  NumParameters :: nat
  call_jacobian :: "vec \<Rightarrow> vec \<Rightarrow> vec \<Rightarrow> bool \<times> vec \<times> vec"
  call_null :: "vec \<Rightarrow> vec \<Rightarrow> bool \<times> vec"

text \<open>The members of the class. The linear solver (by default Eigen's
  \<open>PartialPivLU\<close>) and \<open>isApprox\<close> are Eigen's and are parameters of the model:
  \<open>linear_solver M w\<close> is \<open>compute(M)\<close> followed by \<open>solve(w)\<close>.\<close>

record TinySolver =
  params :: SolverParameters
  results :: Results
  dx_m :: vec
  x_new_m :: vec
  g_m :: vec
  error_m :: vec
  f_x_new_m :: vec
  jacobian_m :: matrix
  jtj_m :: matrix
  jtj_augmented_m :: matrix

type_synonym LinearSolver = "matrix \<Rightarrow> vec \<Rightarrow> vec"
type_synonym IsApprox = "vec \<Rightarrow> vec \<Rightarrow> bool"

subsection \<open>Initialize\<close>

definition Initialize_sizes :: "nat \<Rightarrow> nat \<Rightarrow> 'a TinySolver_scheme \<Rightarrow> 'a TinySolver_scheme" where
  "Initialize_sizes num_residuals num_parameters s =
     s\<lparr>error_m := resize_vec num_residuals (error_m s),
       f_x_new_m := resize_vec num_residuals (f_x_new_m s),
       jacobian_m := resize_mat num_residuals num_parameters (jacobian_m s),
       jtj_m := resize_mat num_parameters num_parameters (jtj_m s),
       jtj_augmented_m := resize_mat num_parameters num_parameters (jtj_augmented_m s)\<rparr>"

definition Initialize :: "Function \<Rightarrow> 'a TinySolver_scheme \<Rightarrow> 'a TinySolver_scheme" where
  "Initialize f s =
     (case (NUM_RESIDUALS f, NUM_PARAMETERS f) of
        (None, None) \<Rightarrow> Initialize_sizes (NumResiduals f) (NumParameters f) s
      | (None, Some P) \<Rightarrow> Initialize_sizes (NumResiduals f) P s
      | (Some R, None) \<Rightarrow> Initialize_sizes R (NumParameters f) s
      | (Some R, Some P) \<Rightarrow> s)"

subsection \<open>Update\<close>

text \<open>The flag returned by the cost function is dropped, as in the source.\<close>

definition Update :: "Function \<Rightarrow> vec \<Rightarrow> 'a TinySolver_scheme \<Rightarrow> Status \<times> 'a TinySolver_scheme" where
  "Update f xp s =
     (let (ok, r, j) = call_jacobian f xp (error_m s) (coeffs (jacobian_m s));
          J = (jacobian_m s)\<lparr>coeffs := j\<rparr>;
          e = map uminus r;
          A = transpose_times J J;
          gr = transpose_times_vec J e;
          s' = s\<lparr>error_m := e, jacobian_m := J, jtj_m := A, g_m := gr\<rparr>
      in if maxCoeff (map abs gr) < gradient_threshold (params s) then (GRADIENT_TOO_SMALL, s')
         else if norm_v e < error_threshold (params s) then (ERROR_TOO_SMALL, s')
         else (RUNNING, s'))"

subsection \<open>Solve\<close>

text \<open>The locals of \<open>Solve\<close>, on top of the members: \<open>loc_x\<close> is \<open>x\<close>, the
  reference to the caller's \<open>*x_and_min\<close>; \<open>loc_u\<close>, \<open>loc_v\<close> and \<open>loc_i\<close> are
  \<open>u\<close>, \<open>v\<close> and \<open>i\<close>.\<close>

record Solve_frame = TinySolver +
  loc_x :: vec
  loc_u :: real
  loc_v :: real
  loc_i :: int

text \<open>The first statements of the loop body: the damped matrix and the step.\<close>

definition linear_step :: "LinearSolver \<Rightarrow> Solve_frame \<Rightarrow> Solve_frame" where
  "linear_step linear_solver s =
     (let s1 = s\<lparr>jtj_augmented_m := add_to_diagonal (jtj_m s) (loc_u s)\<rparr>
      in s1\<lparr>dx_m := linear_solver (jtj_augmented_m s1) (g_m s1)\<rparr>)"

text \<open>\<open>bool solved = (jtj_augmented_ * dx_).isApprox(g_)\<close>\<close>

definition solved :: "IsApprox \<Rightarrow> Solve_frame \<Rightarrow> bool" where
  "solved isApprox s = isApprox (times_vec (jtj_augmented_m s) (dx_m s)) (g_m s)"

text \<open>\<open>dx_.norm() < params.relative_step_threshold * x.norm()\<close>\<close>

definition step_too_small :: "Solve_frame \<Rightarrow> bool" where
  "step_too_small s =
     (norm_v (dx_m s) < relative_step_threshold (params s) * norm_v (loc_x s))"

text \<open>The tentative point and the residual-only evaluation there; its flag is
  dropped, as in the source.\<close>

definition trial :: "Function \<Rightarrow> Solve_frame \<Rightarrow> Solve_frame" where
  "trial f s =
     (let s1 = s\<lparr>x_new_m := vec_add (loc_x s) (dx_m s)\<rparr>;
          (ok, fx) = call_null f (x_new_m s1) (f_x_new_m s1)
      in s1\<lparr>f_x_new_m := fx\<rparr>)"

definition rho :: "Solve_frame \<Rightarrow> quotient" where
  "rho s =
     scalar_div (squaredNorm (error_m s) - squaredNorm (f_x_new_m s))
                (dot (dx_m s) (vec_add (scale (loc_u s) (dx_m s)) (g_m s)))"

text \<open>The accepted step.\<close>

definition accept :: "Function \<Rightarrow> quotient \<Rightarrow> Solve_frame \<Rightarrow> Solve_frame" where
  "accept f q s =
     (let s1 = s\<lparr>loc_x := x_new_m s\<rparr>;
          (st, s2) = Update f (loc_x s1) s1;
          s3 = s2\<lparr>results := (results s2)\<lparr>status := st\<rparr>\<rparr>
      in s3\<lparr>loc_u := loc_u s3 * damping_factor q, loc_v := 2\<rparr>)"

text \<open>The end of the body, reached when the step is not accepted.\<close>

definition reject :: "Solve_frame \<Rightarrow> Solve_frame" where
  "reject s = s\<lparr>loc_u := loc_u s * loc_v s, loc_v := loc_v s * 2\<rparr>"

datatype flow = Break | Next

definition body :: "LinearSolver \<Rightarrow> IsApprox \<Rightarrow> Function \<Rightarrow> Solve_frame \<Rightarrow> flow \<times> Solve_frame" where
  "body linear_solver isApprox f s =
     (let s1 = linear_step linear_solver s
      in if solved isApprox s1 then
           if step_too_small s1 then
             (Break, s1\<lparr>results := (results s1)\<lparr>status := RELATIVE_STEP_SIZE_TOO_SMALL\<rparr>\<rparr>)
           else
             let s2 = trial f s1
             in if positive (rho s2) then (Next, accept f (rho s2) s2)
                else (Next, reject s2)
         else
           (Next, reject (s1\<lparr>results := (results s1)
              \<lparr>num_failed_linear_solves := num_failed_linear_solves (results s1) + 1\<rparr>\<rparr>)))"

text \<open>\<open>for (i = 0; results.status == RUNNING && i < params.max_iterations; ++i)\<close>:
  \<open>continue\<close> and the end of the body both reach \<open>++i\<close>.\<close>

definition loop_condition :: "Solve_frame \<Rightarrow> bool" where
  "loop_condition s =
     (status (results s) = RUNNING \<and> loc_i s < max_iterations (params s))"

function loop :: "LinearSolver \<Rightarrow> IsApprox \<Rightarrow> Function \<Rightarrow> Solve_frame \<Rightarrow> Solve_frame" where
  "loop linear_solver isApprox f s =
     (if loop_condition s then
        (case body linear_solver isApprox f s of
           (Break, s') \<Rightarrow> s'
         | (Next, s') \<Rightarrow> loop linear_solver isApprox f (s'\<lparr>loc_i := loc_i s' + 1\<rparr>))
      else s)"
  by pat_completeness auto
termination
  by (relation "measure (\<lambda>(linear_solver, isApprox, f, s).
         nat (max_iterations (params s) - loc_i s))")
     (auto simp: loop_condition_def body_def linear_step_def trial_def accept_def reject_def
           Update_def Let_def split: prod.splits if_splits)

text \<open>The frames at the start of each iteration that \<open>loop\<close> runs, in order.\<close>

function iterations_of :: "LinearSolver \<Rightarrow> IsApprox \<Rightarrow> Function \<Rightarrow> Solve_frame \<Rightarrow> Solve_frame list" where
  "iterations_of linear_solver isApprox f s =
     (if loop_condition s then
        s # (case body linear_solver isApprox f s of
               (Break, s') \<Rightarrow> []
             | (Next, s') \<Rightarrow> iterations_of linear_solver isApprox f (s'\<lparr>loc_i := loc_i s' + 1\<rparr>))
      else [])"
  by pat_completeness auto
termination
  by (relation "measure (\<lambda>(linear_solver, isApprox, f, s).
         nat (max_iterations (params s) - loc_i s))")
     (auto simp: loop_condition_def body_def linear_step_def trial_def accept_def reject_def
           Update_def Let_def split: prod.splits if_splits)

text \<open>The frame with which the loop is entered: \<open>Initialize\<close>, the first
  \<open>Update\<close>, and the initial \<open>u\<close>, \<open>v\<close> and \<open>i\<close>.\<close>

definition entry :: "Function \<Rightarrow> vec \<Rightarrow> TinySolver \<Rightarrow> Solve_frame" where
  "entry f x0 s =
     (let s0 = Initialize f s;
          (st, s1) = Update f x0 s0;
          s2 = s1\<lparr>results := (results s1)\<lparr>status := st\<rparr>\<rparr>
      in TinySolver.extend s2
           \<lparr>loc_x = x0,
            loc_u = initial_scale_factor (params s2) * maxCoeff (diagonal (jtj_m s2)),
            loc_v = 2, loc_i = 0\<rparr>)"

text \<open>The statements after the loop.\<close>

definition finish :: "Solve_frame \<Rightarrow> Solve_frame" where
  "finish s =
     (let s1 = (if status (results s) = RUNNING
                then s\<lparr>results := (results s)\<lparr>status := HIT_MAX_ITERATIONS\<rparr>\<rparr> else s)
      in s1\<lparr>results := (results s1)
            \<lparr>error_magnitude := norm_v (error_m s1),
             gradient_magnitude := norm_v (g_m s1),
             iterations := loc_i s1\<rparr>\<rparr>)"

text \<open>\<open>Solve\<close> returns the results; the caller's vector and the solver object are
  left as the frame has them.\<close>

definition Solve_run :: "LinearSolver \<Rightarrow> IsApprox \<Rightarrow> Function \<Rightarrow> vec \<Rightarrow> TinySolver \<Rightarrow> Solve_frame" where
  "Solve_run linear_solver isApprox f x0 s =
     finish (loop linear_solver isApprox f (entry f x0 s))"

definition Solve :: "LinearSolver \<Rightarrow> IsApprox \<Rightarrow> Function \<Rightarrow> vec \<Rightarrow> TinySolver
                      \<Rightarrow> Results \<times> vec \<times> TinySolver" where
  "Solve linear_solver isApprox f x0 s =
     (let fr = Solve_run linear_solver isApprox f x0 s
      in (results fr, loc_x fr, TinySolver.truncate fr))"

subsection \<open>What an iteration did\<close>

text \<open>The step of an iteration is accepted when the body reaches \<open>x = x_new_\<close>:
  the linear system was solved, the step was not too small, and \<open>rho > 0\<close>. It is
  rejected when the body reaches \<open>u *= v; v *= 2\<close>.\<close>

definition accepted :: "LinearSolver \<Rightarrow> IsApprox \<Rightarrow> Function \<Rightarrow> Solve_frame \<Rightarrow> bool" where
  "accepted linear_solver isApprox f s =
     (solved isApprox (linear_step linear_solver s) \<and>
      \<not> step_too_small (linear_step linear_solver s) \<and>
      positive (rho (trial f (linear_step linear_solver s))))"

definition rejected :: "LinearSolver \<Rightarrow> IsApprox \<Rightarrow> Function \<Rightarrow> Solve_frame \<Rightarrow> bool" where
  "rejected linear_solver isApprox f s =
     (if solved isApprox (linear_step linear_solver s)
      then \<not> step_too_small (linear_step linear_solver s) \<and>
           \<not> positive (rho (trial f (linear_step linear_solver s)))
      else True)"

definition failed_linear_solves :: "LinearSolver \<Rightarrow> IsApprox \<Rightarrow> Function \<Rightarrow> Solve_frame \<Rightarrow> nat" where
  "failed_linear_solves linear_solver isApprox f s =
     length (filter (\<lambda>t. \<not> solved isApprox (linear_step linear_solver t))
                    (iterations_of linear_solver isApprox f s))"

text \<open>The statuses that \<open>Update\<close> and the loop body assign.\<close>

definition assigned :: "Status \<Rightarrow> bool" where
  "assigned st = (st \<in> {RUNNING, GRADIENT_TOO_SMALL, ERROR_TOO_SMALL, RELATIVE_STEP_SIZE_TOO_SMALL})"

section \<open>Dual numbers and cost functors\<close>

text \<open>\<open>Jet<T, N>\<close>: the scalar part \<open>a\<close> and the derivative part \<open>v\<close>, a vector of
  \<open>N\<close> scalars. The fields are named \<open>jet_a\<close> and \<open>jet_v\<close>.\<close>

record Jet =
  jet_a :: real
  jet_v :: "real list"

text \<open>A cost functor for \<open>TinySolverFunctionAutoDiffAdapter\<close> has a templated
  \<open>operator()(const T* parameters, T* residuals)\<close>. The adapter instantiates it twice:
  \<open>scalar_call\<close> is the instance at \<open>T\<close>, \<open>jet_call\<close> the instance at
  \<open>Jet<T, kNumParameters>\<close>. Either receives the parameters and the residual buffer
  and returns its flag with the buffer as it leaves it.\<close>

record CostFunctor =
  scalar_call :: "real list \<Rightarrow> real list \<Rightarrow> bool \<times> real list"
  jet_call :: "Jet list \<Rightarrow> Jet list \<Rightarrow> bool \<times> Jet list"

text \<open>A cost functor for \<open>DynamicAutoDiffCostFunction\<close> takes the parameters in
  blocks, \<open>operator()(T const* const* parameters, T* residuals)\<close>; its instance at
  \<open>Jet<double, Stride>\<close> depends on \<open>Stride\<close>.\<close>

record DynamicCostFunctor =
  block_scalar_call :: "real list list \<Rightarrow> real list \<Rightarrow> bool \<times> real list"
  block_jet_call :: "nat \<Rightarrow> Jet list list \<Rightarrow> Jet list \<Rightarrow> bool \<times> Jet list"

text \<open>Modelled from the spec: the dual-number engine (\<open>ceres/jet.h\<close>) and a cost functor
  written against it. The spec's contract for the engine is that evaluating a function
  \<open>f\<close> on dual-number inputs yields \<open>(f(a), f'(a) \<cdot> v)\<close>: the value component equals
  ordinary evaluation, and the derivative component equals the directional derivative
  along each seed direction carried in \<open>v\<close>; its contract for a residual function is
  that it uses only the operations of the engine. Such a functor is given by its flag
  \<open>succeeds\<close>, its residuals \<open>f p k\<close> and their partial derivatives \<open>f' p k c\<close> at the
  parameter vector \<open>p\<close> (all blocks, in order); it writes every residual.\<close>

definition dual_number_residuals ::
  "(real list \<Rightarrow> nat \<Rightarrow> real) \<Rightarrow> (real list \<Rightarrow> nat \<Rightarrow> nat \<Rightarrow> real) \<Rightarrow> nat \<Rightarrow> Jet list \<Rightarrow> nat \<Rightarrow> Jet list" where
  "dual_number_residuals f f' width jets n =
     map (\<lambda>k. \<lparr>jet_a = f (map jet_a jets) k,
                jet_v = map (\<lambda>t. sum_list (map (\<lambda>c. f' (map jet_a jets) k c * jet_v (jets ! c) ! t)
                                              [0..<length jets]))
                            [0..<width]\<rparr>)
         [0..<n]"

text \<open>Modelled from the spec: a cost functor for the adapter written against the
  dual-number engine; \<open>width\<close> is \<open>kNumParameters\<close>.\<close>

definition dual_number_functor ::
  "(real list \<Rightarrow> bool) \<Rightarrow> (real list \<Rightarrow> nat \<Rightarrow> real) \<Rightarrow> (real list \<Rightarrow> nat \<Rightarrow> nat \<Rightarrow> real) \<Rightarrow> nat \<Rightarrow> CostFunctor" where
  "dual_number_functor succeeds f f' width =
     \<lparr>scalar_call = (\<lambda>parameters residuals.
         (succeeds parameters, map (f parameters) [0..<length residuals])),
      jet_call = (\<lambda>parameters residuals.
         (succeeds (map jet_a parameters),
          dual_number_residuals f f' width parameters (length residuals)))\<rparr>"

text \<open>Modelled from the spec: a cost functor for \<open>DynamicAutoDiffCostFunction\<close>
  written against the dual-number engine; it reads the blocks in order.\<close>

definition dual_number_block_functor ::
  "(real list \<Rightarrow> bool) \<Rightarrow> (real list \<Rightarrow> nat \<Rightarrow> real) \<Rightarrow> (real list \<Rightarrow> nat \<Rightarrow> nat \<Rightarrow> real) \<Rightarrow> DynamicCostFunctor" where
  "dual_number_block_functor succeeds f f' =
     \<lparr>block_scalar_call = (\<lambda>parameters residuals.
         (succeeds (concat parameters), map (f (concat parameters)) [0..<length residuals])),
      block_jet_call = (\<lambda>Stride parameters residuals.
         (succeeds (map jet_a (concat parameters)),
          dual_number_residuals f f' Stride (concat parameters) (length residuals)))\<rparr>"

section \<open>TinySolverFunctionAutoDiffAdapter (include/ceres/tiny_solver.h)\<close>

text \<open>\<open>operator()\<close> of the adapter. \<open>kImpossibleValue\<close> comes from
  \<open>ceres/internal/autodiff.h\<close> and is a parameter. The jacobian pointer is \<open>None\<close>
  when null; \<open>jacobian_matrix\<close> maps the buffer as a column-major
  \<open>kNumResiduals\<close>-by-\<open>kNumParameters\<close> matrix, so that its coefficient \<open>(r, c)\<close> is
  \<open>jacobian[c * kNumResiduals + r]\<close>.\<close>

definition seed_parameters :: "nat \<Rightarrow> real list \<Rightarrow> Jet list" where
  "seed_parameters kNumParameters parameters =
     map (\<lambda>i. \<lparr>jet_a = parameters ! i, jet_v = (replicate kNumParameters 0)[i := 1]\<rparr>)
         [0..<kNumParameters]"

definition impossible_residuals :: "nat \<Rightarrow> nat \<Rightarrow> real \<Rightarrow> Jet list" where
  "impossible_residuals kNumResiduals kNumParameters kImpossibleValue =
     replicate kNumResiduals
       \<lparr>jet_a = kImpossibleValue, jet_v = replicate kNumParameters kImpossibleValue\<rparr>"

definition copy_out :: "nat \<Rightarrow> nat \<Rightarrow> Jet list \<Rightarrow> real list \<times> real list \<Rightarrow> real list \<times> real list" where
  "copy_out kNumResiduals kNumParameters jet_residuals =
     fold (\<lambda>r (residuals, jacobian).
             (residuals[r := jet_a (jet_residuals ! r)],
              fold (\<lambda>c jac. jac[c * kNumResiduals + r := jet_v (jet_residuals ! r) ! c])
                   [0..<kNumParameters] jacobian))
          [0..<kNumResiduals]"

definition adapter_call ::
  "CostFunctor \<Rightarrow> nat \<Rightarrow> nat \<Rightarrow> real \<Rightarrow> real list \<Rightarrow> real list \<Rightarrow> real list option
     \<Rightarrow> bool \<times> real list \<times> real list option" where
  "adapter_call cost_functor kNumResiduals kNumParameters kImpossibleValue
       parameters residuals jacobian =
     (case jacobian of
        None \<Rightarrow>
          (let (ok, res) = scalar_call cost_functor parameters residuals in (ok, res, None))
      | Some jac \<Rightarrow>
          (let jet_parameters = seed_parameters kNumParameters parameters;
               jet_residuals = impossible_residuals kNumResiduals kNumParameters kImpossibleValue;
               (ok, out) = jet_call cost_functor jet_parameters jet_residuals
           in if \<not> ok then (False, residuals, Some jac)
              else (let (res, jac') = copy_out kNumResiduals kNumParameters out (residuals, jac)
                    in (True, res, Some jac'))))"

section \<open>DynamicAutoDiffCostFunction (include/ceres/dynamic_autodiff_cost_function.h)\<close>

text \<open>The object: the functor, the sizes added by \<open>AddParameterBlock\<close> and the
  number set by \<open>SetNumResiduals\<close>. Sizes and counts are natural numbers.\<close>

record DynamicAutoDiffCostFunction =
  functor_m :: DynamicCostFunctor
  parameter_block_sizes :: "nat list"
  num_residuals :: nat

text \<open>The three loops of \<open>Evaluate\<close> over the parameters have the shape
  \<open>for (i = 0, parameter_cursor = 0; i < num_parameter_blocks; ++i)
     for (j = 0; j < parameter_block_sizes()[i]; ++j, parameter_cursor++)\<close>.
  \<open>parameter_cursors\<close> lists the triples \<open>(i, j, parameter_cursor)\<close> in the order in
  which such a loop visits them.\<close>

fun cursors_from :: "nat \<Rightarrow> nat \<Rightarrow> nat list \<Rightarrow> (nat \<times> nat \<times> nat) list" where
  "cursors_from i parameter_cursor [] = []"
| "cursors_from i parameter_cursor (sz # sizes) =
     map (\<lambda>j. (i, j, parameter_cursor + j)) [0..<sz]
     @ cursors_from (Suc i) (parameter_cursor + sz) sizes"

definition parameter_cursors :: "nat list \<Rightarrow> (nat \<times> nat \<times> nat) list" where
  "parameter_cursors sizes = cursors_from 0 0 sizes"

text \<open>The parameter pack \<open>jet_parameters\<close>: block \<open>i\<close> points into \<open>input_jets\<close> at
  the cursor at which the block starts.\<close>

fun blocks_of :: "nat list \<Rightarrow> 'a list \<Rightarrow> 'a list list" where
  "blocks_of [] jets = []"
| "blocks_of (sz # sizes) jets = take sz jets # blocks_of sizes (drop sz jets)"

text \<open>The scratch vectors, the caller's two output buffers, and a log of the calls
  of the functor on jets: the input jets of each call, its flag and the output jets it
  left.\<close>

record evaluate_state =
  input_jets :: "Jet list"
  output_jets :: "Jet list"
  residuals_buf :: "real list"
  jacobians_buf :: "real list list"
  functor_calls :: "(Jet list \<times> bool \<times> Jet list) list"

text \<open>\<open>v.setZero()\<close>, then \<open>v[parameter_cursor - start_derivative_section] = 1.0\<close>
  for a cursor of the active section.\<close>

definition derivative_seed :: "nat \<Rightarrow> nat \<Rightarrow> nat \<Rightarrow> nat \<Rightarrow> real list" where
  "derivative_seed Stride start_derivative_section end_derivative_section parameter_cursor =
     (if start_derivative_section \<le> parameter_cursor \<and> parameter_cursor < end_derivative_section
      then (replicate Stride 0)[parameter_cursor - start_derivative_section := 1]
      else replicate Stride 0)"

definition set_derivatives :: "nat \<Rightarrow> nat \<Rightarrow> nat \<Rightarrow> nat list \<Rightarrow> Jet list \<Rightarrow> Jet list" where
  "set_derivatives Stride start_derivative_section end_derivative_section sizes jets =
     map (\<lambda>((i, j, parameter_cursor), jet).
            jet\<lparr>jet_v := derivative_seed Stride start_derivative_section end_derivative_section
                            parameter_cursor\<rparr>)
         (zip (parameter_cursors sizes) jets)"

text \<open>\<open>jacobians[i][k * parameter_block_sizes()[i] + j] = \<dots>\<close>\<close>

definition write_jacobian :: "nat \<Rightarrow> nat \<Rightarrow> real \<Rightarrow> real list list \<Rightarrow> real list list" where
  "write_jacobian i offset d jacobians = jacobians[i := (jacobians ! i)[offset := d]]"

definition copy_jacobian ::
  "nat list \<Rightarrow> nat \<Rightarrow> nat \<Rightarrow> nat \<Rightarrow> Jet list \<Rightarrow> real list list \<Rightarrow> real list list" where
  "copy_jacobian sizes n start_derivative_section end_derivative_section out =
     fold (\<lambda>(i, j, parameter_cursor) jacobians.
             if start_derivative_section \<le> parameter_cursor \<and>
                parameter_cursor < end_derivative_section
             then fold (\<lambda>k. write_jacobian i (k * sizes ! i + j)
                               (jet_v (out ! k) ! (parameter_cursor - start_derivative_section)))
                       [0..<n]
                       jacobians
             else jacobians)
          (parameter_cursors sizes)"

definition copy_residuals :: "nat \<Rightarrow> Jet list \<Rightarrow> real list \<Rightarrow> real list" where
  "copy_residuals n out = fold (\<lambda>k residuals. residuals[k := jet_a (out ! k)]) [0..<n]"

text \<open>One pass of the loop over the strides. The flag is false when the functor
  returned false and \<open>Evaluate\<close> returns at once. Inside the loop
  \<open>num_strides\<close> is at least 1.\<close>

definition pass_body ::
  "DynamicAutoDiffCostFunction \<Rightarrow> nat \<Rightarrow> nat \<Rightarrow> nat \<Rightarrow> evaluate_state \<Rightarrow> bool \<times> evaluate_state" where
  "pass_body cf Stride num_strides pass st =
     (let sizes = parameter_block_sizes cf;
          num_parameters = sum_list sizes;
          start_derivative_section = pass * Stride;
          end_derivative_section = min ((pass + 1) * Stride) num_parameters;
          jets = set_derivatives Stride start_derivative_section end_derivative_section sizes
                   (input_jets st);
          (ok, out) = block_jet_call (functor_m cf) Stride (blocks_of sizes jets) (output_jets st);
          st1 = st\<lparr>input_jets := jets, output_jets := out,
                   functor_calls := functor_calls st @ [(jets, ok, out)]\<rparr>
      in if \<not> ok then (False, st1)
         else
           (let st2 = st1\<lparr>jacobians_buf :=
                        copy_jacobian sizes (num_residuals cf) start_derivative_section
                          end_derivative_section out (jacobians_buf st1)\<rparr>
            in if pass = num_strides - 1
               then (True, st2\<lparr>residuals_buf :=
                                copy_residuals (num_residuals cf) out (residuals_buf st2)\<rparr>)
               else (True, st2)))"

text \<open>\<open>for (int pass = 0; pass < num_strides; ++pass)\<close>, over the passes still to
  run.\<close>

fun passes ::
  "DynamicAutoDiffCostFunction \<Rightarrow> nat \<Rightarrow> nat \<Rightarrow> nat list \<Rightarrow> evaluate_state \<Rightarrow> bool \<times> evaluate_state" where
  "passes cf Stride num_strides [] st = (True, st)"
| "passes cf Stride num_strides (pass # rest) st =
     (case pass_body cf Stride num_strides pass st of
        (False, st') \<Rightarrow> (False, st')
      | (True, st') \<Rightarrow> passes cf Stride num_strides rest st')"

text \<open>The number of binary digits of a natural number.\<close>

fun bit_length :: "nat \<Rightarrow> nat" where
  "bit_length n = (if n = 0 then 0 else Suc (bit_length (n div 2)))"

declare bit_length.simps [simp del]

text \<open>The binary exponent of a positive number: \<open>2 ^ exponent x \<le> x < 2 ^ (exponent x + 1)\<close>.\<close>

definition exponent :: "real \<Rightarrow> int" where
  "exponent x =
     (if 1 \<le> x then int (bit_length (nat \<lfloor>x\<rfloor>)) - 1
      else - int (bit_length (nat (\<lceil>1 / x\<rceil> - 1))))"

text \<open>The nearest integer, the even one of the two when halfway between them.\<close>

definition round_half_even :: "real \<Rightarrow> int" where
  "round_half_even t =
     (if t - of_int \<lfloor>t\<rfloor> < 1 / 2 then \<lfloor>t\<rfloor>
      else if 1 / 2 < t - of_int \<lfloor>t\<rfloor> then \<lfloor>t\<rfloor> + 1
      else if even \<lfloor>t\<rfloor> then \<lfloor>t\<rfloor> else \<lfloor>t\<rfloor> + 1)"

text \<open>The value of type \<open>float\<close> (IEEE 754 binary32: a significand of 24 binary digits,
  round to nearest, ties to even) that a conversion or an operation yields when its
  exact result is \<open>x\<close>. \<open>Evaluate\<close> only produces values \<open>x \<ge> 0\<close> in the normal range
  of the format (non-negative \<open>int\<close>s and their quotients), so that neither overflow nor
  subnormal numbers occur.\<close>

definition to_float :: "real \<Rightarrow> real" where
  "to_float x =
     (if x = 0 then 0
      else of_int (round_half_even (x / 2 powi (exponent x - 23))) * 2 powi (exponent x - 23))"

text \<open>\<open>int(ceil(num_parameters / float(Stride)))\<close>: \<open>Stride\<close> is converted to \<open>float\<close>, then
  so is \<open>num_parameters\<close>, and the division is a \<open>float\<close> division; \<open>ceil\<close> is exact on its
  result, and so is the conversion of that integer to \<open>int\<close>.\<close>

definition num_strides_of :: "nat \<Rightarrow> nat \<Rightarrow> nat" where
  "num_strides_of num_parameters Stride =
     nat \<lceil>to_float (to_float (real num_parameters) / to_float (real Stride))\<rceil>"

text \<open>What \<open>Evaluate\<close> leaves: its return value, the caller's buffers, and the
  log of the functor's calls on jets.\<close>

record evaluation =
  returned :: bool
  residuals_out :: "real list"
  jacobians_out :: "real list list option"
  calls :: "(Jet list \<times> bool \<times> Jet list) list"

text \<open>The scratch space and the first loop of \<open>Evaluate\<close>, which stores the value
  of every parameter in its input jet. The jets start as \<open>Jet\<close>'s default constructor
  leaves them, taken as zero; every pass overwrites the derivative parts of the inputs
  before the functor sees them.\<close>

definition scratch ::
  "DynamicAutoDiffCostFunction \<Rightarrow> nat \<Rightarrow> real list list \<Rightarrow> real list \<Rightarrow> real list list
     \<Rightarrow> evaluate_state" where
  "scratch cf Stride parameters residuals jacobians =
     \<lparr>input_jets =
        map (\<lambda>(i, j, parameter_cursor).
               \<lparr>jet_a = parameters ! i ! j, jet_v = replicate Stride 0\<rparr>)
            (parameter_cursors (parameter_block_sizes cf)),
      output_jets = replicate (num_residuals cf) \<lparr>jet_a = 0, jet_v = replicate Stride 0\<rparr>,
      residuals_buf = residuals,
      jacobians_buf = jacobians,
      functor_calls = []\<rparr>"

text \<open>\<open>Evaluate\<close>. \<open>CHECK_GT(num_residuals(), 0)\<close> aborts the program when it
  fails: the result is \<open>None\<close>. \<open>jacobians\<close> is \<open>None\<close> for the null pointer.\<close>

definition Evaluate ::
  "DynamicAutoDiffCostFunction \<Rightarrow> nat \<Rightarrow> real list list \<Rightarrow> real list \<Rightarrow> real list list option
     \<Rightarrow> evaluation option" where
  "Evaluate cf Stride parameters residuals jacobians =
     (if \<not> 0 < num_residuals cf then None
      else
        (case jacobians of
           None \<Rightarrow>
             (let (ok, res) = block_scalar_call (functor_m cf) parameters residuals
              in Some \<lparr>returned = ok, residuals_out = res, jacobians_out = None, calls = []\<rparr>)
         | Some jacs \<Rightarrow>
             (let num_parameters = sum_list (parameter_block_sizes cf);
                  num_strides = num_strides_of num_parameters Stride;
                  (ok, st) = passes cf Stride num_strides [0..<num_strides]
                               (scratch cf Stride parameters residuals jacs)
              in Some \<lparr>returned = ok, residuals_out = residuals_buf st,
                       jacobians_out = Some (jacobians_buf st), calls = functor_calls st\<rparr>)))"

section \<open>Concrete inputs\<close>

text \<open>A cost function with one residual and one parameter,
  \<open>r(x) = x - 4 - 3/4 x\<^sup>2\<close>, with its analytic jacobian.\<close>

definition parabola :: Function where
  "parabola =
     \<lparr>NUM_RESIDUALS = Some 1, NUM_PARAMETERS = Some 1, NumResiduals = 1, NumParameters = 1,
      call_jacobian = (\<lambda>p r j. (True, [p ! 0 - 4 - 3 / 4 * (p ! 0 * p ! 0)], [1 - 3 / 2 * p ! 0])),
      call_null = (\<lambda>p r. (True, [p ! 0 - 4 - 3 / 4 * (p ! 0 * p ! 0)]))\<rparr>"

text \<open>A cost function that fails every evaluation and writes nothing.\<close>

definition failing :: Function where
  "failing =
     \<lparr>NUM_RESIDUALS = Some 1, NUM_PARAMETERS = Some 1, NumResiduals = 1, NumParameters = 1,
      call_jacobian = (\<lambda>p r j. (False, r, j)),
      call_null = (\<lambda>p r. (False, r))\<rparr>"

text \<open>\<open>parabola\<close> with a residual-only evaluation that fails and writes nothing.\<close>

definition failing_trial :: Function where
  "failing_trial = parabola\<lparr>call_null := (\<lambda>p r. (False, r))\<rparr>"

text \<open>The exact solver of a 1-by-1 system, a solver that answers zero, and exact
  comparison in the place of \<open>isApprox\<close>.\<close>

definition solve_1x1 :: LinearSolver where
  "solve_1x1 M w = [w ! 0 / coeffs M ! 0]"

definition solve_zero :: LinearSolver where
  "solve_zero M w = [0]"

definition isExactly :: IsApprox where
  "isExactly p q = (p = q)"

text \<open>A solver object for one residual and one parameter, with
  \<open>initial_scale_factor\<close> set to 3, \<open>max_iterations\<close> set to 2, and 7 left in the counter of failed solves.\<close>

definition solver_1x1 :: TinySolver where
  "solver_1x1 =
     \<lparr>params = default_SolverParameters\<lparr>initial_scale_factor := 3, max_iterations := 2\<rparr>,
      results = \<lparr>error_magnitude = 0, gradient_magnitude = 0, num_failed_linear_solves = 7,
                 iterations = 0, status = RUNNING\<rparr>,
      dx_m = [0], x_new_m = [0], g_m = [0], error_m = [0], f_x_new_m = [0],
      jacobian_m = \<lparr>nrows = 1, ncols = 1, coeffs = [0]\<rparr>,
      jtj_m = \<lparr>nrows = 1, ncols = 1, coeffs = [0]\<rparr>,
      jtj_augmented_m = \<lparr>nrows = 1, ncols = 1, coeffs = [0]\<rparr>\<rparr>"

text \<open>The frame with which \<open>Solve\<close> enters the loop on \<open>parabola\<close> from \<open>x = 0\<close>.\<close>

definition parabola_frame :: Solve_frame where
  "parabola_frame =
     \<lparr>params = default_SolverParameters\<lparr>initial_scale_factor := 3, max_iterations := 2\<rparr>,
      results = \<lparr>error_magnitude = 0, gradient_magnitude = 0, num_failed_linear_solves = 7,
                 iterations = 0, status = RUNNING\<rparr>,
      dx_m = [0], x_new_m = [0], g_m = [4], error_m = [4], f_x_new_m = [0],
      jacobian_m = \<lparr>nrows = 1, ncols = 1, coeffs = [1]\<rparr>,
      jtj_m = \<lparr>nrows = 1, ncols = 1, coeffs = [1]\<rparr>,
      jtj_augmented_m = \<lparr>nrows = 1, ncols = 1, coeffs = [0]\<rparr>,
      loc_x = [0], loc_u = 3, loc_v = 2, loc_i = 0\<rparr>"

text \<open>The frame of the second iteration when the first linear solve, by \<open>solve_zero\<close>,
  has failed.\<close>

definition second_frame :: Solve_frame where
  "second_frame =
     parabola_frame\<lparr>jtj_augmented_m := \<lparr>nrows = 1, ncols = 1, coeffs = [4]\<rparr>,
       results := (results parabola_frame)\<lparr>num_failed_linear_solves := 8\<rparr>,
       loc_u := 6, loc_v := 4, loc_i := 1\<rparr>"

text \<open>The frame with which \<open>Solve\<close> reaches the loop on \<open>failing\<close> from \<open>x = 1\<close>.\<close>

definition failing_frame :: Solve_frame where
  "failing_frame =
     \<lparr>params = default_SolverParameters\<lparr>initial_scale_factor := 3, max_iterations := 2\<rparr>,
      results = \<lparr>error_magnitude = 0, gradient_magnitude = 0, num_failed_linear_solves = 7,
                 iterations = 0, status = GRADIENT_TOO_SMALL\<rparr>,
      dx_m = [0], x_new_m = [0], g_m = [0], error_m = [0], f_x_new_m = [0],
      jacobian_m = \<lparr>nrows = 1, ncols = 1, coeffs = [0]\<rparr>,
      jtj_m = \<lparr>nrows = 1, ncols = 1, coeffs = [0]\<rparr>,
      jtj_augmented_m = \<lparr>nrows = 1, ncols = 1, coeffs = [0]\<rparr>,
      loc_x = [1], loc_u = 0, loc_v = 2, loc_i = 0\<rparr>"

text \<open>The functor of the example in \<open>tiny_solver.h\<close>, with residuals
  \<open>x + 2 y + 4 z\<close> and \<open>y z\<close>, written against the dual-number engine: for the adapter,
  and for \<open>DynamicAutoDiffCostFunction\<close> with \<open>x\<close> and \<open>y\<close> in one parameter block and
  \<open>z\<close> in another.\<close>

definition example_residuals :: "real list \<Rightarrow> nat \<Rightarrow> real" where
  "example_residuals p k = (if k = 0 then p ! 0 + 2 * p ! 1 + 4 * p ! 2 else p ! 1 * p ! 2)"

definition example_derivatives :: "real list \<Rightarrow> nat \<Rightarrow> nat \<Rightarrow> real" where
  "example_derivatives p k c = (if k = 0 then [1, 2, 4] ! c else [0, p ! 2, p ! 1] ! c)"

definition example_functor :: CostFunctor where
  "example_functor = dual_number_functor (\<lambda>p. True) example_residuals example_derivatives 3"

definition example_block_functor :: DynamicCostFunctor where
  "example_block_functor =
     dual_number_block_functor (\<lambda>p. True) example_residuals example_derivatives"

definition example_cost_function :: DynamicAutoDiffCostFunction where
  "example_cost_function =
     \<lparr>functor_m = example_block_functor, parameter_block_sizes = [2, 1], num_residuals = 2\<rparr>"

text \<open>The same cost function with a functor that returns false.\<close>

definition failing_cost_function :: DynamicAutoDiffCostFunction where
  "failing_cost_function =
     \<lparr>functor_m = dual_number_block_functor (\<lambda>p. False) example_residuals example_derivatives,
      parameter_block_sizes = [2, 1], num_residuals = 2\<rparr>"

text \<open>A functor that looks at the derivative part of its first parameter and
  returns false when slot 0 of it is not 1: with \<open>Stride = 2\<close> it succeeds on the first
  pass and fails on the second.\<close>

definition picky_cost_function :: DynamicAutoDiffCostFunction where
  "picky_cost_function =
     \<lparr>functor_m =
        \<lparr>block_scalar_call = block_scalar_call example_block_functor,
         block_jet_call = (\<lambda>Stride parameters residuals.
            (jet_v (parameters ! 0 ! 0) ! 0 = 1,
             snd (block_jet_call example_block_functor Stride parameters residuals)))\<rparr>,
      parameter_block_sizes = [2, 1], num_residuals = 2\<rparr>"

text \<open>What \<open>Evaluate\<close> leaves on these cost functions at the parameters
  \<open>(1, 2)\<close> and \<open>(3)\<close>, with \<open>Stride = 2\<close>, residual buffer \<open>[5, 5]\<close> and jacobian
  buffers filled with 9.\<close>

definition example_evaluation :: evaluation where
  "example_evaluation =
     \<lparr>returned = True, residuals_out = [17, 6],
      jacobians_out = Some [[1, 2, 0, 3], [4, 2]],
      calls =
        [([\<lparr>jet_a = 1, jet_v = [1, 0]\<rparr>, \<lparr>jet_a = 2, jet_v = [0, 1]\<rparr>,
           \<lparr>jet_a = 3, jet_v = [0, 0]\<rparr>], True,
          [\<lparr>jet_a = 17, jet_v = [1, 2]\<rparr>, \<lparr>jet_a = 6, jet_v = [0, 3]\<rparr>]),
         ([\<lparr>jet_a = 1, jet_v = [0, 0]\<rparr>, \<lparr>jet_a = 2, jet_v = [0, 0]\<rparr>,
           \<lparr>jet_a = 3, jet_v = [1, 0]\<rparr>], True,
          [\<lparr>jet_a = 17, jet_v = [4, 0]\<rparr>, \<lparr>jet_a = 6, jet_v = [2, 0]\<rparr>])]\<rparr>"

definition failing_evaluation :: evaluation where
  "failing_evaluation =
     \<lparr>returned = False, residuals_out = [5, 5],
      jacobians_out = Some [[9, 9, 9, 9], [9, 9]],
      calls =
        [([\<lparr>jet_a = 1, jet_v = [1, 0]\<rparr>, \<lparr>jet_a = 2, jet_v = [0, 1]\<rparr>,
           \<lparr>jet_a = 3, jet_v = [0, 0]\<rparr>], False,
          [\<lparr>jet_a = 17, jet_v = [1, 2]\<rparr>, \<lparr>jet_a = 6, jet_v = [0, 3]\<rparr>])]\<rparr>"

definition picky_evaluation :: evaluation where
  "picky_evaluation =
     \<lparr>returned = False, residuals_out = [5, 5],
      jacobians_out = Some [[1, 2, 0, 3], [9, 9]],
      calls =
        [([\<lparr>jet_a = 1, jet_v = [1, 0]\<rparr>, \<lparr>jet_a = 2, jet_v = [0, 1]\<rparr>,
           \<lparr>jet_a = 3, jet_v = [0, 0]\<rparr>], True,
          [\<lparr>jet_a = 17, jet_v = [1, 2]\<rparr>, \<lparr>jet_a = 6, jet_v = [0, 3]\<rparr>]),
         ([\<lparr>jet_a = 1, jet_v = [0, 0]\<rparr>, \<lparr>jet_a = 2, jet_v = [0, 0]\<rparr>,
           \<lparr>jet_a = 3, jet_v = [1, 0]\<rparr>], False,
          [\<lparr>jet_a = 17, jet_v = [4, 0]\<rparr>, \<lparr>jet_a = 6, jet_v = [2, 0]\<rparr>])]\<rparr>"

text \<open>A cost function with one block of \<open>2 ^ 24 + 1 = 16777217\<close> parameters and one
  residual, the sum of the parameters: every partial derivative is 1.\<close>

definition sum_cost_function :: DynamicAutoDiffCostFunction where
  "sum_cost_function =
     \<lparr>functor_m = dual_number_block_functor (\<lambda>p. True) (\<lambda>p k. sum_list p) (\<lambda>p k c. 1),
      parameter_block_sizes = [16777217], num_residuals = 1\<rparr>"

text \<open>Entry \<open>off\<close> of the jacobian buffer of block \<open>i\<close> after an evaluation.\<close>

definition jacobian_entry :: "evaluation option \<Rightarrow> nat \<Rightarrow> nat \<Rightarrow> real option" where
  "jacobian_entry E i off =
     (case E of
        None \<Rightarrow> None
      | Some e \<Rightarrow> (case jacobians_out e of None \<Rightarrow> None | Some J \<Rightarrow> Some (J ! i ! off)))"
section \<open>Properties of TinySolver\<close>

subsection \<open>The pieces of the loop body\<close>

lemma Update_frame [simp]:
  "params (snd (Update f xp s)) = params s"
  "results (snd (Update f xp s)) = results s"
  "loc_x (snd (Update f xp s)) = loc_x s"
  "loc_u (snd (Update f xp s)) = loc_u s"
  "loc_v (snd (Update f xp s)) = loc_v s"
  "loc_i (snd (Update f xp s)) = loc_i s"
  by (simp_all add: Update_def Let_def split: prod.splits)

lemma linear_step_frame [simp]:
  "params (linear_step ls s) = params s"
  "results (linear_step ls s) = results s"
  "loc_x (linear_step ls s) = loc_x s"
  "loc_u (linear_step ls s) = loc_u s"
  "loc_v (linear_step ls s) = loc_v s"
  "loc_i (linear_step ls s) = loc_i s"
  by (simp_all add: linear_step_def Let_def)

lemma trial_frame [simp]:
  "params (trial f s) = params s"
  "results (trial f s) = results s"
  "loc_x (trial f s) = loc_x s"
  "loc_u (trial f s) = loc_u s"
  "loc_v (trial f s) = loc_v s"
  "loc_i (trial f s) = loc_i s"
  by (simp_all add: trial_def Let_def split: prod.splits)

lemma reject_frame [simp]:
  "params (reject s) = params s"
  "results (reject s) = results s"
  "loc_x (reject s) = loc_x s"
  "loc_u (reject s) = loc_u s * loc_v s"
  "loc_v (reject s) = loc_v s * 2"
  "loc_i (reject s) = loc_i s"
  by (simp_all add: reject_def)

lemma accept_frame [simp]:
  "params (accept f q s) = params s"
  "loc_x (accept f q s) = x_new_m s"
  "loc_u (accept f q s) = loc_u s * damping_factor q"
  "loc_v (accept f q s) = 2"
  "loc_i (accept f q s) = loc_i s"
  "num_failed_linear_solves (results (accept f q s)) = num_failed_linear_solves (results s)"
  by (simp_all add: accept_def Let_def Update_def split: prod.splits)

lemma accept_status:
  "status (results (accept f q s)) = fst (Update f (x_new_m s) (s\<lparr>loc_x := x_new_m s\<rparr>))"
  by (simp add: accept_def Let_def split: prod.splits)


lemma body_failed:
  "\<not> solved ap (linear_step ls s) \<Longrightarrow>
   body ls ap f s = (Next, reject ((linear_step ls s)\<lparr>results := (results s)
       \<lparr>num_failed_linear_solves := num_failed_linear_solves (results s) + 1\<rparr>\<rparr>))"
  by (simp add: body_def Let_def)

lemma body_small:
  "solved ap (linear_step ls s) \<Longrightarrow> step_too_small (linear_step ls s) \<Longrightarrow>
   body ls ap f s = (Break, (linear_step ls s)\<lparr>results := (results s)
       \<lparr>status := RELATIVE_STEP_SIZE_TOO_SMALL\<rparr>\<rparr>)"
  by (simp add: body_def Let_def)

lemma body_accepted:
  "accepted ls ap f s \<Longrightarrow>
   body ls ap f s = (Next, accept f (rho (trial f (linear_step ls s))) (trial f (linear_step ls s)))"
  by (simp add: body_def Let_def accepted_def)

lemma body_rejected:
  "solved ap (linear_step ls s) \<Longrightarrow> \<not> step_too_small (linear_step ls s) \<Longrightarrow>
   \<not> positive (rho (trial f (linear_step ls s))) \<Longrightarrow>
   body ls ap f s = (Next, reject (trial f (linear_step ls s)))"
  by (simp add: body_def Let_def)

lemma body_cases:
  obtains (failed) "\<not> solved ap (linear_step ls s)"
  | (small) "solved ap (linear_step ls s)" "step_too_small (linear_step ls s)"
  | (accepted) "accepted ls ap f s"
  | (rejected) "solved ap (linear_step ls s)" "\<not> step_too_small (linear_step ls s)"
       "\<not> positive (rho (trial f (linear_step ls s)))"
  unfolding accepted_def by blast

lemma body_keeps [simp]:
  "params (snd (body ls ap f s)) = params s"
  "loc_i (snd (body ls ap f s)) = loc_i s"
  by (cases rule: body_cases[where ap=ap and ls=ls and s=s and f=f];
      simp add: body_failed body_small body_accepted body_rejected)+

lemma loop_stop: "\<not> loop_condition s \<Longrightarrow> loop ls ap f s = s"
  by simp

lemma loop_break:
  "loop_condition s \<Longrightarrow> body ls ap f s = (Break, s') \<Longrightarrow> loop ls ap f s = s'"
  by simp

lemma loop_next:
  "loop_condition s \<Longrightarrow> body ls ap f s = (Next, s') \<Longrightarrow>
   loop ls ap f s = loop ls ap f (s'\<lparr>loc_i := loc_i s + 1\<rparr>)"
proof -
  assume c: "loop_condition s" and b: "body ls ap f s = (Next, s')"
  have "loc_i s' = loc_i s" using body_keeps(2)[of ls ap f s] b by simp
  with c b show ?thesis by simp
qed

lemma iterations_stop: "\<not> loop_condition s \<Longrightarrow> iterations_of ls ap f s = []"
  by simp

lemma iterations_break:
  "loop_condition s \<Longrightarrow> body ls ap f s = (Break, s') \<Longrightarrow> iterations_of ls ap f s = [s]"
  by simp

lemma iterations_next:
  "loop_condition s \<Longrightarrow> body ls ap f s = (Next, s') \<Longrightarrow>
   iterations_of ls ap f s = s # iterations_of ls ap f (s'\<lparr>loc_i := loc_i s + 1\<rparr>)"
proof -
  assume c: "loop_condition s" and b: "body ls ap f s = (Next, s')"
  have "loc_i s' = loc_i s" using body_keeps(2)[of ls ap f s] b by simp
  with c b show ?thesis by simp
qed

declare loop.simps [simp del] iterations_of.simps [simp del]







lemma entry_loc [simp]:
  "loc_v (entry f x0 s0) = 2" "loc_i (entry f x0 s0) = 0" "loc_x (entry f x0 s0) = x0"
  by (simp_all add: entry_def Let_def TinySolver.defs split: prod.splits)


lemma iterations_head:
  "loop_condition s \<Longrightarrow> s \<in> set (iterations_of ls ap f s)"
  by (cases "body ls ap f s"; rename_tac fl s'; case_tac fl)
     (simp_all add: iterations_break iterations_next)

lemma body_not_accepted_x:
  "\<not> accepted ls ap f s \<Longrightarrow> loc_x (snd (body ls ap f s)) = loc_x s"
  by (cases rule: body_cases[where ap=ap and ls=ls and s=s and f=f];
      simp add: body_failed body_small body_rejected)

lemma loop_not_accepted_x:
  "(\<And>t. t \<in> set (iterations_of ls ap f s) \<Longrightarrow> \<not> accepted ls ap f t) \<Longrightarrow>
   loc_x (loop ls ap f s) = loc_x s"
proof (induction ls ap f s rule: loop.induct)
  case (1 ls ap f s)
  show ?case
  proof (cases "loop_condition s")
    case False
    then show ?thesis by (simp add: loop_stop)
  next
    case True
    obtain fl s' where b: "body ls ap f s = (fl, s')" by (cases "body ls ap f s")
    have "\<not> accepted ls ap f s" using "1.prems" iterations_head[OF True] by blast
    then have x': "loc_x s' = loc_x s" using body_not_accepted_x[of ls ap f s] b by simp
    show ?thesis
    proof (cases fl)
      case Break
      with True b x' show ?thesis by (simp add: loop_break)
    next
      case Next
      have i: "loc_i s' = loc_i s" using body_keeps(2)[of ls ap f s] b by simp
      have "loc_x (loop ls ap f (s'\<lparr>loc_i := loc_i s' + 1\<rparr>)) = loc_x (s'\<lparr>loc_i := loc_i s' + 1\<rparr>)"
      proof (rule "1.IH"[OF True b[symmetric] Next])
        fix t assume "t \<in> set (iterations_of ls ap f (s'\<lparr>loc_i := loc_i s' + 1\<rparr>))"
        then have "t \<in> set (iterations_of ls ap f s)"
          using True b Next by (simp add: iterations_next i)
        then show "\<not> accepted ls ap f t" by (rule "1.prems")
      qed
      then show ?thesis using True b Next x' by (simp add: loop_next i)
    qed
  qed
qed

lemma finish_keeps [simp]:
  "loc_x (finish s) = loc_x s"
  "num_failed_linear_solves (results (finish s)) = num_failed_linear_solves (results s)"
  "status (results (finish s)) = (if status (results s) = RUNNING then HIT_MAX_ITERATIONS else status (results s))"
  by (simp_all add: finish_def Let_def)

lemma Solve_x: "fst (snd (Solve ls ap f x0 s0)) = loc_x (loop ls ap f (entry f x0 s0))"
  by (simp add: Solve_def Solve_run_def Let_def)

text \<open>The increment of the counter at the largest \<open>int\<close>.\<close>

lemma counter_wraps: "sint (2147483647 + 1 :: 32 word) = - 2147483648"
  by simp

lemma body_num_failed:
  "num_failed_linear_solves (results (snd (body ls ap f s)))
     = num_failed_linear_solves (results s)
       + (if solved ap (linear_step ls s) then 0 else 1)"
  by (cases rule: body_cases[where ap=ap and ls=ls and s=s and f=f];
      simp add: body_failed body_small body_accepted body_rejected accepted_def)

lemma failed_stop: "\<not> loop_condition s \<Longrightarrow> failed_linear_solves ls ap f s = 0"
  by (simp add: failed_linear_solves_def iterations_stop)

lemma failed_break:
  "loop_condition s \<Longrightarrow> body ls ap f s = (Break, s') \<Longrightarrow>
   failed_linear_solves ls ap f s = (if solved ap (linear_step ls s) then 0 else 1)"
  by (simp add: failed_linear_solves_def iterations_break)

lemma failed_next:
  "loop_condition s \<Longrightarrow> body ls ap f s = (Next, s') \<Longrightarrow>
   failed_linear_solves ls ap f s
     = (if solved ap (linear_step ls s) then 0 else 1)
       + failed_linear_solves ls ap f (s'\<lparr>loc_i := loc_i s + 1\<rparr>)"
  by (simp add: failed_linear_solves_def iterations_next)

lemma loop_num_failed:
  "num_failed_linear_solves (results (loop ls ap f s))
     = num_failed_linear_solves (results s) + of_nat (failed_linear_solves ls ap f s)"
proof (induction ls ap f s rule: loop.induct)
  case (1 ls ap f s)
  show ?case
  proof (cases "loop_condition s")
    case False
    then show ?thesis by (simp add: loop_stop failed_stop)
  next
    case True
    obtain fl s' where b: "body ls ap f s = (fl, s')" by (cases "body ls ap f s")
    have n: "num_failed_linear_solves (results s')
               = num_failed_linear_solves (results s) + (if solved ap (linear_step ls s) then 0 else 1)"
      using body_num_failed[of ls ap f s] b by simp
    show ?thesis
    proof (cases fl)
      case Break
      with True b n show ?thesis by (simp add: loop_break failed_break)
    next
      case Next
      have i: "loc_i s' = loc_i s" using body_keeps(2)[of ls ap f s] b by simp
      have "num_failed_linear_solves (results (loop ls ap f (s'\<lparr>loc_i := loc_i s' + 1\<rparr>)))
              = num_failed_linear_solves (results (s'\<lparr>loc_i := loc_i s' + 1\<rparr>))
                + of_nat (failed_linear_solves ls ap f (s'\<lparr>loc_i := loc_i s' + 1\<rparr>))"
        by (rule "1.IH"[OF True b[symmetric] Next])
      then show ?thesis
        using True b Next n loop_next[OF True, of ls ap f s'] failed_next[OF True, of ls ap f s']
        by (simp add: i)
    qed
  qed
qed

lemma entry_num_failed [simp]:
  "num_failed_linear_solves (results (entry f x0 s)) = num_failed_linear_solves (results s)"
  by (simp add: entry_def Let_def TinySolver.defs Initialize_def Initialize_sizes_def Update_def
      split: prod.splits option.splits)

lemma Solve_num_failed:
  "num_failed_linear_solves (fst (Solve ls ap f x0 s))
     = num_failed_linear_solves (results s) + of_nat (failed_linear_solves ls ap f (entry f x0 s))"
  by (simp add: Solve_def Solve_run_def Let_def loop_num_failed)

lemma Solve_solver_results:
  "results (snd (snd (Solve ls ap f x0 s))) = fst (Solve ls ap f x0 s)"
  by (simp add: Solve_def Let_def TinySolver.defs)

subsection \<open>The statuses that Solve can report\<close>

lemma Update_status:
  "fst (Update f xp s) \<in> {RUNNING, GRADIENT_TOO_SMALL, ERROR_TOO_SMALL}"
  by (simp add: Update_def Let_def split: prod.splits)

lemma body_status:
  "assigned (status (results s)) \<Longrightarrow> assigned (status (results (snd (body ls ap f s))))"
  using Update_status[of f "x_new_m (trial f (linear_step ls s))"
          "(trial f (linear_step ls s))\<lparr>loc_x := x_new_m (trial f (linear_step ls s))\<rparr>"]
  by (cases rule: body_cases[where ap=ap and ls=ls and s=s and f=f])
     (auto simp add: body_failed body_small body_accepted body_rejected accept_status assigned_def)

lemma loop_status:
  "assigned (status (results s)) \<Longrightarrow> assigned (status (results (loop ls ap f s)))"
proof (induction ls ap f s rule: loop.induct)
  case (1 ls ap f s)
  show ?case
  proof (cases "loop_condition s")
    case False
    with "1.prems" show ?thesis by (simp add: loop_stop)
  next
    case True
    obtain fl s' where b: "body ls ap f s = (fl, s')" by (cases "body ls ap f s")
    have a': "assigned (status (results s'))"
      using body_status[OF "1.prems", of ls ap f] b by simp
    show ?thesis
    proof (cases fl)
      case Break
      with True b a' show ?thesis by (simp add: loop_break)
    next
      case Next
      have i: "loc_i s' = loc_i s" using body_keeps(2)[of ls ap f s] b by simp
      have "assigned (status (results (loop ls ap f (s'\<lparr>loc_i := loc_i s' + 1\<rparr>))))"
        using "1.IH"[OF True b[symmetric] Next] a' by simp
      then show ?thesis using True b Next by (simp add: loop_next i)
    qed
  qed
qed

lemma entry_status: "assigned (status (results (entry f x0 s)))"
  using Update_status[of f x0 "Initialize f s"]
  by (auto simp add: entry_def Let_def TinySolver.defs assigned_def split: prod.splits)

lemma Solve_status:
  "status (fst (Solve ls ap f x0 s))
     \<in> {GRADIENT_TOO_SMALL, ERROR_TOO_SMALL, RELATIVE_STEP_SIZE_TOO_SMALL, HIT_MAX_ITERATIONS}"
proof -
  have "assigned (status (results (loop ls ap f (entry f x0 s))))"
    by (rule loop_status) (rule entry_status)
  then show ?thesis
    by (auto simp add: Solve_def Solve_run_def Let_def assigned_def)
qed

subsection \<open>The concrete inputs, evaluated\<close>

lemmas eigen_defs = coeff_def squaredNorm_def norm_v_def dot_def vec_add_def scale_def
  diagonal_def add_to_diagonal_def transpose_times_def transpose_times_vec_def times_vec_def


lemma entry_parabola: "entry parabola [0] solver_1x1 = parabola_frame"
  by (simp add: entry_def Initialize_def parabola_def solver_1x1_def Update_def Let_def
      eigen_defs default_SolverParameters_def TinySolver.defs parabola_frame_def)

lemma linear_step_parabola:
  "linear_step solve_1x1 parabola_frame =
     parabola_frame\<lparr>jtj_augmented_m := \<lparr>nrows = 1, ncols = 1, coeffs = [4]\<rparr>, dx_m := [1]\<rparr>"
  by (simp add: parabola_frame_def linear_step_def Let_def solve_1x1_def eigen_defs)

lemma solved_parabola:
  "solved isExactly (linear_step solve_1x1 parabola_frame)"
  by (simp add: linear_step_parabola solved_def isExactly_def)
     (simp add: parabola_frame_def eigen_defs)

lemma not_small_parabola:
  "\<not> step_too_small (linear_step solve_1x1 parabola_frame)"
  by (simp add: linear_step_parabola step_too_small_def)
     (simp add: parabola_frame_def eigen_defs default_SolverParameters_def)

lemma rho_parabola:
  "rho (trial parabola (linear_step solve_1x1 parabola_frame)) = Finite (31 / 112)"
  by (simp add: linear_step_parabola trial_def rho_def Let_def parabola_def)
     (simp add: parabola_frame_def eigen_defs scalar_div_def)

lemma accepted_parabola:
  "accepted solve_1x1 isExactly parabola parabola_frame"
  by (simp add: accepted_def solved_parabola not_small_parabola rho_parabola)

lemma loop_condition_parabola: "loop_condition parabola_frame"
  by (simp add: loop_condition_def parabola_frame_def default_SolverParameters_def)

lemma linear_step_zero:
  "linear_step solve_zero parabola_frame =
     parabola_frame\<lparr>jtj_augmented_m := \<lparr>nrows = 1, ncols = 1, coeffs = [4]\<rparr>, dx_m := [0]\<rparr>"
  by (simp add: parabola_frame_def linear_step_def Let_def solve_zero_def eigen_defs)

lemma not_solved_zero:
  "\<not> solved isExactly (linear_step solve_zero parabola_frame)"
  by (simp add: linear_step_zero solved_def isExactly_def)
     (simp add: parabola_frame_def eigen_defs)

lemma not_solved_zero_general:
  "g_m s = [4] \<Longrightarrow> nrows (jtj_m s) = 1 \<Longrightarrow> ncols (jtj_m s) = 1 \<Longrightarrow>
   \<not> solved isExactly (linear_step solve_zero s)"
  by (simp add: linear_step_def Let_def solved_def isExactly_def solve_zero_def eigen_defs)

lemma body_zero_general:
  "g_m s = [4] \<Longrightarrow> nrows (jtj_m s) = 1 \<Longrightarrow> ncols (jtj_m s) = 1 \<Longrightarrow>
   body solve_zero isExactly f s =
     (Next, reject ((linear_step solve_zero s)\<lparr>results := (results s)
       \<lparr>num_failed_linear_solves := num_failed_linear_solves (results s) + 1\<rparr>\<rparr>))"
  by (rule body_failed) (rule not_solved_zero_general)

lemma iterations_zero:
  "iterations_of solve_zero isExactly parabola parabola_frame = [parabola_frame, second_frame]"
proof -
  have g0: "g_m parabola_frame = [4]" "nrows (jtj_m parabola_frame) = 1"
    "ncols (jtj_m parabola_frame) = 1"
    by (simp_all add: parabola_frame_def)
  have g1: "g_m second_frame = [4]" "nrows (jtj_m second_frame) = 1"
    "ncols (jtj_m second_frame) = 1"
    by (simp_all add: second_frame_def parabola_frame_def)
  have c1: "loop_condition second_frame"
    by (simp add: loop_condition_def second_frame_def parabola_frame_def default_SolverParameters_def)
  have n1: "(reject ((linear_step solve_zero parabola_frame)\<lparr>results := (results parabola_frame)
       \<lparr>num_failed_linear_solves := num_failed_linear_solves (results parabola_frame) + 1\<rparr>\<rparr>))
        \<lparr>loc_i := loc_i parabola_frame + 1\<rparr> = second_frame"
    by (simp add: linear_step_zero reject_def second_frame_def) (simp add: parabola_frame_def)
  have c2: "\<not> loop_condition ((reject ((linear_step solve_zero second_frame)\<lparr>results := (results second_frame)
       \<lparr>num_failed_linear_solves := num_failed_linear_solves (results second_frame) + 1\<rparr>\<rparr>))
        \<lparr>loc_i := loc_i second_frame + 1\<rparr>)"
    by (simp add: loop_condition_def reject_def second_frame_def parabola_frame_def
        default_SolverParameters_def)
  show ?thesis
    using iterations_next[OF loop_condition_parabola body_zero_general[OF g0]]
      iterations_next[OF c1 body_zero_general[OF g1]] iterations_stop[OF c2]
    by (simp add: n1)
qed

subsection \<open>Eigen operations in mathematical notation\<close>

lemma sum_list_upt: "sum_list (map h [0..<n]) = (\<Sum>k<n. h k)"
  by (simp add: interv_sum_list_conv_sum_set_nat atLeast0LessThan)

lemma length_concat_columns:
  "length (concat (map (\<lambda>c. map (h c) [0..<n]) [0..<m])) = m * n"
  by (induction m) simp_all

lemma concat_columns_nth:
  "r < n \<Longrightarrow> c < m \<Longrightarrow>
   concat (map (\<lambda>c. map (h c) [0..<n]) [0..<m]) ! (c * n + r) = h c r"
proof (induction m)
  case 0
  then show ?case by simp
next
  case (Suc m)
  show ?case
  proof (cases "c < m")
    case True
    then have "c * n + r < m * n"
      using Suc.prems(1)
      by (metis add.commute less_le_trans mult_Suc Suc_leI add_less_cancel_left mult_le_mono1)
    then show ?thesis using Suc True by (simp add: nth_append length_concat_columns)
  next
    case False
    with Suc.prems have "c = m" by simp
    then show ?thesis using Suc.prems by (simp add: nth_append length_concat_columns)
  qed
qed

lemma coeff_transpose_times:
  "p < ncols J \<Longrightarrow> q < ncols K \<Longrightarrow>
   coeff (transpose_times J K) p q = (\<Sum>k<nrows J. coeff J k p * coeff K k q)"
  using concat_columns_nth[of p "ncols J" q "ncols K"
          "\<lambda>c r. sum_list (map (\<lambda>k. coeff J k r * coeff K k c) [0..<nrows J])"]
  by (simp add: transpose_times_def coeff_def[of "\<lparr>nrows = _, ncols = _, coeffs = _\<rparr>"] sum_list_upt)

lemma transpose_times_vec_nth:
  "p < ncols J \<Longrightarrow> transpose_times_vec J w ! p = (\<Sum>k<nrows J. coeff J k p * w ! k)"
  by (simp add: transpose_times_vec_def sum_list_upt)

lemma maxCoeff_Max: "w \<noteq> [] \<Longrightarrow> maxCoeff w = Max (set w)"
proof (cases w)
  case Nil
  assume "w \<noteq> []" with Nil show ?thesis by simp
next
  case (Cons t ts)
  have "foldl max t ts = fold max ts t"
    by (simp add: foldl_conv_fold max.commute)
  moreover have "Max (set (t # ts)) = fold max ts t"
    by (rule Max.set_eq_fold)
  ultimately show ?thesis using Cons by (simp del: set_simps)
qed

lemma maxCoeff_abs:
  "w \<noteq> [] \<Longrightarrow> maxCoeff (map abs w) = Max ((\<lambda>k. \<bar>w ! k\<bar>) ` {..<length w})"
proof -
  assume "w \<noteq> []"
  have "set (map abs w) = (\<lambda>k. \<bar>w ! k\<bar>) ` {..<length w}"
  proof -
    have "map abs w = map (\<lambda>k. \<bar>w ! k\<bar>) [0..<length w]"
      by (rule nth_equalityI) simp_all
    then have "set (map abs w) = set (map (\<lambda>k. \<bar>w ! k\<bar>) [0..<length w])"
      by simp
    also have "\<dots> = (\<lambda>k. \<bar>w ! k\<bar>) ` {..<length w}"
      by (simp add: atLeast0LessThan)
    finally show ?thesis .
  qed
  with \<open>w \<noteq> []\<close> show ?thesis by (simp add: maxCoeff_Max del: set_map)
qed

lemma norm_v_sum: "norm_v w = sqrt (\<Sum>k<length w. (w ! k)\<^sup>2)"
proof -
  have "map (\<lambda>t. t * t) w = map (\<lambda>k. (w ! k)\<^sup>2) [0..<length w]"
    by (rule nth_equalityI) (simp_all add: power2_eq_square)
  then have "sum_list (map (\<lambda>t. t * t) w) = sum_list (map (\<lambda>k. (w ! k)\<^sup>2) [0..<length w])"
    by simp
  then show ?thesis by (simp only: norm_v_def squaredNorm_def sum_list_upt)
qed

subsection \<open>Evaluations that fail\<close>

lemma entry_failing: "entry failing [1] solver_1x1 = failing_frame"
  by (simp add: entry_def Initialize_def failing_def solver_1x1_def Update_def Let_def
      eigen_defs default_SolverParameters_def TinySolver.defs failing_frame_def)

lemma Solve_failing:
  "fst (Solve linear_solver isApprox failing [1] solver_1x1) =
     \<lparr>error_magnitude = 0, gradient_magnitude = 0, num_failed_linear_solves = 7,
      iterations = 0, status = GRADIENT_TOO_SMALL\<rparr>"
proof -
  have "\<not> loop_condition failing_frame"
    by (simp add: loop_condition_def failing_frame_def)
  then have "loop linear_solver isApprox failing failing_frame = failing_frame"
    by (rule loop_stop)
  then show ?thesis
    by (simp add: Solve_def Solve_run_def Let_def entry_failing)
       (simp add: finish_def failing_frame_def eigen_defs)
qed

lemma entry_failing_trial: "entry failing_trial [0] solver_1x1 = parabola_frame"
  by (simp add: entry_def Initialize_def failing_trial_def parabola_def solver_1x1_def Update_def
      Let_def eigen_defs default_SolverParameters_def TinySolver.defs parabola_frame_def)

lemma rho_failing_trial:
  "rho (trial failing_trial (linear_step solve_1x1 parabola_frame)) = Finite (16 / 7)"
  by (simp add: linear_step_parabola trial_def rho_def Let_def failing_trial_def parabola_def)
     (simp add: parabola_frame_def eigen_defs scalar_div_def)

lemma accepted_failing_trial:
  "accepted solve_1x1 isExactly failing_trial parabola_frame"
  by (simp add: accepted_def solved_parabola not_small_parabola rho_failing_trial)

lemma x_failing_trial:
  "loc_x (snd (body solve_1x1 isExactly failing_trial parabola_frame)) = [1]"
  by (simp add: body_accepted[OF accepted_failing_trial] trial_def Let_def linear_step_parabola
      split: prod.splits)
     (simp add: parabola_frame_def eigen_defs)

section \<open>Properties of the adapter\<close>

lemma fold_pair:
  "fold (\<lambda>r (p, q). (F r p, G r q)) rs (p, q) = (fold F rs p, fold G rs q)"
  by (induction rs arbitrary: p q) simp_all

lemma length_fold_update [simp]:
  "length (fold (\<lambda>c xs. xs[h c := g c xs]) cs xs) = length xs"
  by (induction cs arbitrary: xs) simp_all

lemma row_write_nth:
  assumes "r < R" and "idx < length jac"
  shows "fold (\<lambda>c jac. jac[c * R + r := g c]) [0..<m] jac ! idx
           = (if idx mod R = r \<and> idx div R < m then g (idx div R) else jac ! idx)"
proof (induction m)
  case 0
  show ?case by simp
next
  case (Suc m)
  have eq: "(idx = m * R + r) = (idx mod R = r \<and> idx div R = m)"
  proof
    assume "idx = m * R + r"
    then show "idx mod R = r \<and> idx div R = m" using assms(1) by simp
  next
    assume "idx mod R = r \<and> idx div R = m"
    then have "idx div R * R + idx mod R = m * R + r" by simp
    then show "idx = m * R + r" by (simp only: div_mult_mod_eq)
  qed
  have len: "idx < length (fold (\<lambda>c jac. jac[c * R + r := g c]) [0..<m] jac)"
    using assms(2) length_fold_update[of "\<lambda>c. c * R + r" "\<lambda>c xs. g c" "[0..<m]" jac] by simp
  show ?case
    using Suc len eq by (auto simp add: nth_list_update less_Suc_eq)
qed


lemma rows_write_nth:
  assumes "idx < length jac" and "n \<le> R"
  shows "fold (\<lambda>r jac. fold (\<lambda>c jac. jac[c * R + r := g r c]) [0..<P] jac) [0..<n] jac ! idx
           = (if idx mod R < n \<and> idx div R < P then g (idx mod R) (idx div R) else jac ! idx)"
  using assms(2)
proof (induction n)
  case 0
  show ?case by simp
next
  case (Suc n)
  let ?before = "fold (\<lambda>r jac. fold (\<lambda>c jac. jac[c * R + r := g r c]) [0..<P] jac) [0..<n] jac"
  have len: "idx < length ?before"
    using assms(1) by (induction n) simp_all
  have n: "n < R" using Suc.prems by simp
  have IH: "?before ! idx
      = (if idx mod R < n \<and> idx div R < P then g (idx mod R) (idx div R) else jac ! idx)"
    using Suc.IH n by simp
  show ?case
    using IH row_write_nth[OF n len, of "g n" P]
    by (auto simp add: less_Suc_eq)
qed

lemma length_rows_write [simp]:
  "length (fold (\<lambda>r jac. fold (\<lambda>c jac. jac[c * R + r := g r c]) [0..<P] jac) [0..<n] jac)
     = length jac"
  by (induction n) simp_all

lemma residual_write_nth:
  "k < length res \<Longrightarrow>
   fold (\<lambda>r res. res[r := h r]) [0..<n] res ! k = (if k < n then h k else res ! k)"
  by (induction n) (auto simp add: nth_list_update less_Suc_eq)

lemma length_residual_write [simp]:
  "length (fold (\<lambda>r res. res[r := h r]) [0..<n] res) = length res"
  by (induction n) simp_all

lemma copy_out_eq:
  "copy_out R P out (res, jac)
     = (fold (\<lambda>r res. res[r := jet_a (out ! r)]) [0..<R] res,
        fold (\<lambda>r jac. fold (\<lambda>c jac. jac[c * R + r := jet_v (out ! r) ! c]) [0..<P] jac) [0..<R] jac)"
  by (simp add: copy_out_def fold_pair)

lemma seed_parameters_nth:
  "i < P \<Longrightarrow> seed_parameters P parameters ! i
     = \<lparr>jet_a = parameters ! i, jet_v = (replicate P 0)[i := 1]\<rparr>"
  by (simp add: seed_parameters_def)

section \<open>Properties of DynamicAutoDiffCostFunction\<close>

subsection \<open>The cursors\<close>

lemma cursors_from_cursor:
  "map (\<lambda>(i, j, c). c) (cursors_from i0 c0 sizes) = [c0..<c0 + sum_list sizes]"
proof (induction sizes arbitrary: i0 c0)
  case Nil
  show ?case by simp
next
  case (Cons sz sizes)
  have "map (\<lambda>j. c0 + j) [0..<sz] = [c0..<c0 + sz]"
    by (simp add: map_add_upt add.commute)
  moreover have "[c0..<c0 + sz] @ [c0 + sz..<c0 + sz + sum_list sizes]
                   = [c0..<c0 + sz + sum_list sizes]"
    using upt_add_eq_append[of c0 "c0 + sz" "sum_list sizes"] by simp
  ultimately show ?case
    using Cons[of "Suc i0" "c0 + sz"]
    by (simp add: comp_def add.assoc)
qed

lemma length_cursors_from [simp]:
  "length (cursors_from i0 c0 sizes) = sum_list sizes"
  using arg_cong[OF cursors_from_cursor[of i0 c0 sizes], of length] by simp

lemma length_parameter_cursors [simp]:
  "length (parameter_cursors sizes) = sum_list sizes"
  by (simp add: parameter_cursors_def)

lemma parameter_cursors_cursor:
  "map (\<lambda>(i, j, c). c) (parameter_cursors sizes) = [0..<sum_list sizes]"
  using cursors_from_cursor[of 0 0 sizes] by (simp add: parameter_cursors_def)

lemma parameter_cursors_nth_cursor:
  "n < sum_list sizes \<Longrightarrow> (\<lambda>(i, j, c). c) (parameter_cursors sizes ! n) = n"
  using arg_cong[OF parameter_cursors_cursor[of sizes], of "\<lambda>xs. xs ! n"] by simp

lemma cursors_from_mem:
  "(i, j, c) \<in> set (cursors_from i0 c0 sizes) \<Longrightarrow>
   i0 \<le> i \<and> i - i0 < length sizes \<and> j < sizes ! (i - i0)"
proof (induction sizes arbitrary: i0 c0)
  case Nil
  then show ?case by simp
next
  case (Cons sz sizes)
  from Cons.prems have "(i = i0 \<and> j < sz) \<or> (i, j, c) \<in> set (cursors_from (Suc i0) (c0 + sz) sizes)"
    by auto
  then show ?case
  proof
    assume "i = i0 \<and> j < sz" then show ?thesis by simp
  next
    assume "(i, j, c) \<in> set (cursors_from (Suc i0) (c0 + sz) sizes)"
    from Cons.IH[OF this] show ?thesis by (auto simp add: Suc_diff_le)
  qed
qed

lemma parameter_cursors_mem:
  "(i, j, c) \<in> set (parameter_cursors sizes) \<Longrightarrow> i < length sizes \<and> j < sizes ! i"
  using cursors_from_mem[of i j c 0 0 sizes] by (simp add: parameter_cursors_def)

lemma cursors_from_block:
  "(i, j, c) \<in> set (cursors_from i0 c0 sizes) \<Longrightarrow>
   (i, j', c') \<in> set (cursors_from i0 c0 sizes) \<Longrightarrow> c + j' = c' + j"
proof (induction sizes arbitrary: i0 c0)
  case Nil
  then show ?case by simp
next
  case (Cons sz sizes)
  have later: "\<And>j c. (i, j, c) \<in> set (cursors_from (Suc i0) (c0 + sz) sizes) \<Longrightarrow> Suc i0 \<le> i"
    using cursors_from_mem by blast
  from Cons.prems(1) have a: "(i = i0 \<and> c = c0 + j) \<or> (i, j, c) \<in> set (cursors_from (Suc i0) (c0 + sz) sizes)"
    by auto
  from Cons.prems(2) have b: "(i = i0 \<and> c' = c0 + j') \<or> (i, j', c') \<in> set (cursors_from (Suc i0) (c0 + sz) sizes)"
    by auto
  from a b show ?case
    using later Cons.IH[of "Suc i0" "c0 + sz"] by fastforce
qed

lemma parameter_cursors_same_cursor:
  assumes "(i, j, c) \<in> set (parameter_cursors sizes)"
      and "(i', j', c) \<in> set (parameter_cursors sizes)"
  shows "i' = i \<and> j' = j"
proof -
  have d: "distinct (map (\<lambda>(i, j, c). c) (parameter_cursors sizes))"
    by (simp add: parameter_cursors_cursor)
  have "inj_on (\<lambda>(i, j, c). c) (set (parameter_cursors sizes))"
    using d by (simp add: distinct_map)
  then have "(i, j, c) = (i', j', c)"
    using assms by (intro inj_onD[of "\<lambda>(i, j, c). c" _ "(i, j, c)" "(i', j', c)"]) simp_all
  then show ?thesis by simp
qed

lemma distinct_parameter_cursors: "distinct (parameter_cursors sizes)"
proof -
  have "distinct (map (\<lambda>(i, j, c). c) (parameter_cursors sizes))"
    by (simp add: parameter_cursors_cursor)
  then show ?thesis by (simp add: distinct_map)
qed


subsection \<open>The parameter pack\<close>

lemma concat_blocks_of: "concat (blocks_of sizes jets) = take (sum_list sizes) jets"
proof (induction sizes arbitrary: jets)
  case Nil
  show ?case by simp
next
  case (Cons sz sizes)
  show ?case by (simp add: Cons take_add)
qed

lemma set_derivatives_nth:
  assumes "length jets = sum_list sizes" and "c < sum_list sizes"
  shows "set_derivatives Stride s e sizes jets ! c
           = (jets ! c)\<lparr>jet_v := derivative_seed Stride s e c\<rparr>"
proof -
  obtain i j c' where t: "parameter_cursors sizes ! c = (i, j, c')"
    by (cases "parameter_cursors sizes ! c")
  have "c' = c" using parameter_cursors_nth_cursor[OF assms(2)] t by simp
  then show ?thesis using assms t by (simp add: set_derivatives_def)
qed

lemma length_set_derivatives [simp]:
  "length jets = sum_list sizes \<Longrightarrow> length (set_derivatives Stride s e sizes jets) = sum_list sizes"
  by (simp add: set_derivatives_def)

lemma set_derivatives_values:
  assumes "length jets = sum_list sizes"
  shows "map jet_a (set_derivatives Stride s e sizes jets) = map jet_a jets"
  by (rule nth_equalityI) (simp_all add: assms set_derivatives_nth)

subsection \<open>Writes into the jacobian buffers\<close>

lemma length_write_jacobian [simp]:
  "length (write_jacobian i off d jacs) = length jacs"
  "length (write_jacobian i off d jacs ! n) = length (jacs ! n)"
  by (cases "n < length jacs"; cases "i = n";
      simp add: write_jacobian_def nth_list_update list_update_beyond)+

lemma write_jacobian_other:
  "(i, off) \<noteq> (n, m) \<Longrightarrow> write_jacobian i off d jacs ! n ! m = jacs ! n ! m"
  by (cases "i = n"; cases "n < length jacs")
     (auto simp add: write_jacobian_def list_update_beyond)

lemma write_jacobian_same:
  "n < length jacs \<Longrightarrow> m < length (jacs ! n) \<Longrightarrow> write_jacobian n m d jacs ! n ! m = d"
  by (simp add: write_jacobian_def)

lemma length_writes [simp]:
  "length (fold (\<lambda>((i, off), d). write_jacobian i off d) ws jacs) = length jacs"
  "length (fold (\<lambda>((i, off), d). write_jacobian i off d) ws jacs ! n) = length (jacs ! n)"
  by (induction ws arbitrary: jacs) (simp_all add: split_beta)

lemma writes_other:
  "(n, m) \<notin> fst ` set ws \<Longrightarrow>
   fold (\<lambda>((i, off), d). write_jacobian i off d) ws jacs ! n ! m = jacs ! n ! m"
proof (induction ws arbitrary: jacs)
  case Nil
  show ?case by simp
next
  case (Cons w ws)
  obtain i off d where w: "w = ((i, off), d)" by (cases w) auto
  have "(i, off) \<noteq> (n, m)" using Cons.prems w by auto
  then show ?case using Cons w by (simp add: write_jacobian_other)
qed

lemma writes_same:
  assumes "distinct (map fst ws)" and "((n, m), d) \<in> set ws"
      and "n < length jacs" and "m < length (jacs ! n)"
  shows "fold (\<lambda>((i, off), d). write_jacobian i off d) ws jacs ! n ! m = d"
  using assms
proof (induction ws arbitrary: jacs)
  case Nil
  then show ?case by simp
next
  case (Cons w ws)
  obtain i off e where w: "w = ((i, off), e)" by (cases w) auto
  show ?case
  proof (cases "w = ((n, m), d)")
    case True
    then have "(n, m) \<notin> fst ` set ws" using Cons.prems(1) by auto
    then show ?thesis
      using True Cons.prems(3,4) by (simp add: writes_other write_jacobian_same)
  next
    case False
    then have "((n, m), d) \<in> set ws" using Cons.prems(2) by simp
    then show ?thesis
      using Cons.IH[of "write_jacobian i off e jacs"] Cons.prems w by simp
  qed
qed

lemma fold_product:
  "fold (\<lambda>x. fold (h x) ys) xs = fold (\<lambda>(x, y). h x y) (List.product xs ys)"
  by (induction xs) (simp_all add: fold_map comp_def)

lemma fold_filter_if:
  "fold (\<lambda>x s. if Q x then h x s else s) xs = fold h (filter Q xs)"
  by (induction xs) (auto simp add: fun_eq_iff)


lemma copy_jacobian_writes:
  "copy_jacobian sizes n s e out
     = fold (\<lambda>((i, off), d). write_jacobian i off d)
         (map (\<lambda>((i, j, c), k). ((i, k * sizes ! i + j), jet_v (out ! k) ! (c - s)))
            (List.product (filter (\<lambda>(i, j, c). s \<le> c \<and> c < e) (parameter_cursors sizes)) [0..<n]))"
proof -
  let ?h = "\<lambda>(i, j, c). fold (\<lambda>k. write_jacobian i (k * sizes ! i + j) (jet_v (out ! k) ! (c - s))) [0..<n]"
  let ?Q = "\<lambda>(i, j, c). s \<le> c \<and> c < e"
  have "copy_jacobian sizes n s e out
          = fold (\<lambda>x jacs. if ?Q x then ?h x jacs else jacs) (parameter_cursors sizes)"
    unfolding copy_jacobian_def
    by (rule arg_cong[where f = "\<lambda>F. fold F (parameter_cursors sizes)"])
       (auto simp add: fun_eq_iff)
  also have "\<dots> = fold ?h (filter ?Q (parameter_cursors sizes))"
    by (rule fold_filter_if)
  also have "?h = (\<lambda>x. fold (\<lambda>k. write_jacobian (fst x) (k * sizes ! (fst x) + fst (snd x))
                                   (jet_v (out ! k) ! (snd (snd x) - s))) [0..<n])"
    by (auto simp add: fun_eq_iff)
  also have "fold \<dots> (filter ?Q (parameter_cursors sizes))
      = fold (\<lambda>(x, k). write_jacobian (fst x) (k * sizes ! (fst x) + fst (snd x))
                                   (jet_v (out ! k) ! (snd (snd x) - s)))
          (List.product (filter ?Q (parameter_cursors sizes)) [0..<n])"
    by (rule fold_product)
  also have "\<dots> = fold (\<lambda>((i, off), d). write_jacobian i off d)
         (map (\<lambda>((i, j, c), k). ((i, k * sizes ! i + j), jet_v (out ! k) ! (c - s)))
            (List.product (filter ?Q (parameter_cursors sizes)) [0..<n]))"
  proof -
    have "(\<lambda>((i, off), d). write_jacobian i off d)
            \<circ> (\<lambda>((i, j, c), k). ((i, k * sizes ! i + j), jet_v (out ! k) ! (c - s)))
          = (\<lambda>(x, k). write_jacobian (fst x) (k * sizes ! (fst x) + fst (snd x))
                                   (jet_v (out ! k) ! (snd (snd x) - s)))"
      by (auto simp add: fun_eq_iff)
    then show ?thesis by (simp only: fold_map)
  qed
  finally show ?thesis .
qed

lemma offset_unique:
  fixes sz :: nat
  assumes "k * sz + j = k' * sz + j'" and "j < sz" and "j' < sz"
  shows "k = k' \<and> j = j'"
proof -
  have "(k * sz + j) div sz = k" "(k * sz + j) mod sz = j"
    using assms(2) by simp_all
  moreover have "(k' * sz + j') div sz = k'" "(k' * sz + j') mod sz = j'"
    using assms(3) by simp_all
  ultimately show ?thesis using assms(1) by metis
qed

lemma distinct_addresses:
  "distinct (map fst
     (map (\<lambda>((i, j, c), k). ((i, k * sizes ! i + j), jet_v (out ! k) ! (c - s)))
        (List.product (filter (\<lambda>(i, j, c). s \<le> c \<and> c < e) (parameter_cursors sizes)) [0..<n])))"
proof -
  let ?xs = "List.product (filter (\<lambda>(i, j, c). s \<le> c \<and> c < e) (parameter_cursors sizes)) [0..<n]"
  let ?addr = "\<lambda>((i, j, c), k). (i, k * sizes ! i + j)"
  have d: "distinct ?xs"
    by (intro distinct_product distinct_filter distinct_parameter_cursors) simp
  have inj: "inj_on ?addr (set ?xs)"
  proof (rule inj_onI)
    fix x y assume x: "x \<in> set ?xs" and y: "y \<in> set ?xs" and eq: "?addr x = ?addr y"
    obtain i j c k where xe: "x = ((i, j, c), k)" by (cases x) auto
    obtain i' j' c' k' where ye: "y = ((i', j', c'), k')" by (cases y) auto
    have mx: "(i, j, c) \<in> set (parameter_cursors sizes)" using x xe by simp
    have my: "(i', j', c') \<in> set (parameter_cursors sizes)" using y ye by simp
    have i: "i' = i" using eq xe ye by simp
    have off: "k * sizes ! i + j = k' * sizes ! i + j'"
      using eq xe ye i by simp
    have "j < sizes ! i" "j' < sizes ! i"
      using parameter_cursors_mem[OF mx] parameter_cursors_mem[OF my] i by simp_all
    with off have kj: "k = k' \<and> j = j'" by (rule offset_unique)
    have "c + j' = c' + j"
      using cursors_from_block[of i j c 0 0 sizes j' c'] mx my i
      by (simp add: parameter_cursors_def)
    with kj have "c = c'" by simp
    with kj i show "x = y" by (simp add: xe ye)
  qed
  have "map fst (map (\<lambda>((i, j, c), k). ((i, k * sizes ! i + j), jet_v (out ! k) ! (c - s))) ?xs)
          = map ?addr ?xs"
    by (simp add: comp_def split_beta)
  then show ?thesis using d inj by (simp only: distinct_map)
qed

lemma copy_jacobian_written:
  assumes "(i, j, c) \<in> set (parameter_cursors sizes)" and "s \<le> c" and "c < e" and "k < n"
      and "i < length jacs" and "k * sizes ! i + j < length (jacs ! i)"
  shows "copy_jacobian sizes n s e out jacs ! i ! (k * sizes ! i + j) = jet_v (out ! k) ! (c - s)"
proof -
  let ?m = "\<lambda>((i, j, c), k). ((i, k * sizes ! i + j), jet_v (out ! k) ! (c - s))"
  let ?xs = "List.product (filter (\<lambda>(i, j, c). s \<le> c \<and> c < e) (parameter_cursors sizes)) [0..<n]"
  have "((i, j, c), k) \<in> set ?xs"
    using assms(1-4) by simp
  then have "?m ((i, j, c), k) \<in> ?m ` set ?xs"
    by (rule imageI)
  then have "((i, k * sizes ! i + j), jet_v (out ! k) ! (c - s)) \<in> set (map ?m ?xs)"
    by simp
  then show ?thesis
    unfolding copy_jacobian_writes
    using distinct_addresses assms(5,6) by (intro writes_same)
qed

lemma copy_jacobian_untouched:
  assumes "\<And>j c k. (i, j, c) \<in> set (parameter_cursors sizes) \<Longrightarrow> s \<le> c \<Longrightarrow> c < e \<Longrightarrow> k < n
             \<Longrightarrow> off \<noteq> k * sizes ! i + j"
  shows "copy_jacobian sizes n s e out jacs ! i ! off = jacs ! i ! off"
proof -
  have "(i, off) \<notin> fst ` set (map (\<lambda>((i, j, c), k). ((i, k * sizes ! i + j), jet_v (out ! k) ! (c - s)))
        (List.product (filter (\<lambda>(i, j, c). s \<le> c \<and> c < e) (parameter_cursors sizes)) [0..<n]))"
    using assms by (auto simp add: image_iff)
  then show ?thesis
    unfolding copy_jacobian_writes by (rule writes_other)
qed

lemma length_copy_jacobian [simp]:
  "length (copy_jacobian sizes n s e out jacs) = length jacs"
  "length (copy_jacobian sizes n s e out jacs ! i) = length (jacs ! i)"
  unfolding copy_jacobian_writes by simp_all

lemma copy_residuals_nth:
  "k < length res \<Longrightarrow> copy_residuals n out res ! k = (if k < n then jet_a (out ! k) else res ! k)"
  by (simp add: copy_residuals_def residual_write_nth)

lemma address_column:
  assumes "(i, j, c) \<in> set (parameter_cursors sizes)"
      and "(i, j', c') \<in> set (parameter_cursors sizes)"
      and "k * sizes ! i + j = k' * sizes ! i + j'"
  shows "k = k' \<and> j = j' \<and> c = c'"
proof -
  have "j < sizes ! i" "j' < sizes ! i"
    using parameter_cursors_mem[OF assms(1)] parameter_cursors_mem[OF assms(2)] by simp_all
  with assms(3) have kj: "k = k' \<and> j = j'" by (rule offset_unique)
  have "c + j' = c' + j"
    using cursors_from_block[of i j c 0 0 sizes j' c'] assms(1,2)
    by (simp add: parameter_cursors_def)
  with kj show ?thesis by simp
qed

lemma parameter_cursors_bound:
  "(i, j, c) \<in> set (parameter_cursors sizes) \<Longrightarrow> c < sum_list sizes"
proof -
  assume "(i, j, c) \<in> set (parameter_cursors sizes)"
  then have "(\<lambda>(i, j, c). c) (i, j, c) \<in> (\<lambda>(i, j, c). c) ` set (parameter_cursors sizes)"
    by (rule imageI)
  then have "c \<in> set (map (\<lambda>(i, j, c). c) (parameter_cursors sizes))" by simp
  then show ?thesis by (simp only: parameter_cursors_cursor) simp
qed

subsection \<open>One pass\<close>

lemma pass_body_True:
  assumes "pass_body cf Stride N p st = (True, st')"
  shows "\<exists>out.
           block_jet_call (functor_m cf) Stride
             (blocks_of (parameter_block_sizes cf)
                (set_derivatives Stride (p * Stride)
                   (min ((p + 1) * Stride) (sum_list (parameter_block_sizes cf)))
                   (parameter_block_sizes cf) (input_jets st)))
             (output_jets st) = (True, out) \<and>
           st' = st\<lparr>input_jets :=
                      set_derivatives Stride (p * Stride)
                        (min ((p + 1) * Stride) (sum_list (parameter_block_sizes cf)))
                        (parameter_block_sizes cf) (input_jets st),
                    output_jets := out,
                    functor_calls := functor_calls st @
                      [(set_derivatives Stride (p * Stride)
                          (min ((p + 1) * Stride) (sum_list (parameter_block_sizes cf)))
                          (parameter_block_sizes cf) (input_jets st), True, out)],
                    jacobians_buf :=
                      copy_jacobian (parameter_block_sizes cf) (num_residuals cf) (p * Stride)
                        (min ((p + 1) * Stride) (sum_list (parameter_block_sizes cf))) out
                        (jacobians_buf st),
                    residuals_buf :=
                      (if p = N - 1 then copy_residuals (num_residuals cf) out (residuals_buf st)
                       else residuals_buf st)\<rparr>"
  using assms
  by (auto simp add: pass_body_def Let_def split: prod.splits if_splits)

lemma pass_body_False:
  assumes "pass_body cf Stride N p st = (False, st')"
  shows "\<exists>out.
           block_jet_call (functor_m cf) Stride
             (blocks_of (parameter_block_sizes cf)
                (set_derivatives Stride (p * Stride)
                   (min ((p + 1) * Stride) (sum_list (parameter_block_sizes cf)))
                   (parameter_block_sizes cf) (input_jets st)))
             (output_jets st) = (False, out) \<and>
           st' = st\<lparr>input_jets :=
                      set_derivatives Stride (p * Stride)
                        (min ((p + 1) * Stride) (sum_list (parameter_block_sizes cf)))
                        (parameter_block_sizes cf) (input_jets st),
                    output_jets := out,
                    functor_calls := functor_calls st @
                      [(set_derivatives Stride (p * Stride)
                          (min ((p + 1) * Stride) (sum_list (parameter_block_sizes cf)))
                          (parameter_block_sizes cf) (input_jets st), False, out)]\<rparr>"
  using assms
  by (auto simp add: pass_body_def Let_def split: prod.splits if_splits)

lemma passes_append:
  "passes cf Stride N (ps @ qs) st
     = (case passes cf Stride N ps st of
          (False, st') \<Rightarrow> (False, st')
        | (True, st') \<Rightarrow> passes cf Stride N qs st')"
  by (induction ps arbitrary: st) (auto split: prod.splits bool.splits)

lemma passes_Suc:
  "passes cf Stride N [0..<Suc n] st
     = (case passes cf Stride N [0..<n] st of
          (False, st') \<Rightarrow> (False, st')
        | (True, st') \<Rightarrow> pass_body cf Stride N n st')"
  by (auto simp add: passes_append split: prod.splits bool.splits)

lemma passes_Suc_True:
  assumes "passes cf Stride N [0..<Suc n] st0 = (True, st')"
  obtains st where "passes cf Stride N [0..<n] st0 = (True, st)"
    and "pass_body cf Stride N n st = (True, st')"
proof -
  from assms have "(case passes cf Stride N [0..<n] st0 of
          (False, st') \<Rightarrow> (False, st')
        | (True, st') \<Rightarrow> pass_body cf Stride N n st') = (True, st')"
    by (simp only: passes_Suc)
  then show thesis using that by (auto split: prod.splits bool.splits)
qed

lemma set_derivatives_again:
  assumes "length jets = sum_list sizes"
  shows "set_derivatives Stride s e sizes (set_derivatives Stride s' e' sizes jets)
           = set_derivatives Stride s e sizes jets"
  by (rule nth_equalityI) (simp_all add: assms set_derivatives_nth)


lemma passes_Suc_False:
  assumes "passes cf Stride N [0..<Suc n] st0 = (False, st')"
  shows "passes cf Stride N [0..<n] st0 = (False, st') \<or>
         (\<exists>st. passes cf Stride N [0..<n] st0 = (True, st) \<and>
               pass_body cf Stride N n st = (False, st'))"
proof -
  from assms have "(case passes cf Stride N [0..<n] st0 of
          (False, st') \<Rightarrow> (False, st')
        | (True, st') \<Rightarrow> pass_body cf Stride N n st') = (False, st')"
    by (simp only: passes_Suc)
  then show ?thesis by (auto split: prod.splits bool.splits)
qed

lemma passes_False:
  assumes "passes cf Stride N [0..<n] st0 = (False, st')"
  shows "\<exists>m st. m < n \<and> passes cf Stride N [0..<m] st0 = (True, st) \<and>
                pass_body cf Stride N m st = (False, st')"
  using assms
proof (induction n)
  case 0
  then show ?case by simp
next
  case (Suc n)
  from passes_Suc_False[OF Suc.prems] show ?case
  proof
    assume "passes cf Stride N [0..<n] st0 = (False, st')"
    from Suc.IH[OF this] show ?thesis by (auto intro: less_SucI)
  next
    assume "\<exists>st. passes cf Stride N [0..<n] st0 = (True, st) \<and>
               pass_body cf Stride N n st = (False, st')"
    then show ?thesis by blast
  qed
qed

subsection \<open>The state after the first passes, all successful\<close>

lemma passes_inputs:
  assumes "passes cf Stride N [0..<n] st0 = (True, st)"
      and "length (input_jets st0) = sum_list (parameter_block_sizes cf)"
  shows "length (input_jets st) = sum_list (parameter_block_sizes cf) \<and>
         map jet_a (input_jets st) = map jet_a (input_jets st0) \<and>
         (\<forall>s e. set_derivatives Stride s e (parameter_block_sizes cf) (input_jets st)
                = set_derivatives Stride s e (parameter_block_sizes cf) (input_jets st0))"
  using assms(1)
proof (induction n arbitrary: st)
  case 0
  then show ?case using assms(2) by simp
next
  case (Suc n)
  from Suc.prems obtain st1 where p: "passes cf Stride N [0..<n] st0 = (True, st1)"
    and b: "pass_body cf Stride N n st1 = (True, st)"
    by (rule passes_Suc_True)
  note IH = Suc.IH[OF p]
  from pass_body_True[OF b]
  have i: "input_jets st = set_derivatives Stride (n * Stride)
                        (min ((n + 1) * Stride) (sum_list (parameter_block_sizes cf)))
                        (parameter_block_sizes cf) (input_jets st1)"
    by auto
  from IH have len1: "length (input_jets st1) = sum_list (parameter_block_sizes cf)"
    and a1: "map jet_a (input_jets st1) = map jet_a (input_jets st0)"
    and d1: "\<And>s e. set_derivatives Stride s e (parameter_block_sizes cf) (input_jets st1)
                = set_derivatives Stride s e (parameter_block_sizes cf) (input_jets st0)"
    by simp_all
  have "length (input_jets st) = sum_list (parameter_block_sizes cf)"
    unfolding i using len1 by (rule length_set_derivatives)
  moreover have "map jet_a (input_jets st) = map jet_a (input_jets st0)"
    unfolding i using set_derivatives_values[OF len1] a1 by simp
  moreover have "\<forall>s e. set_derivatives Stride s e (parameter_block_sizes cf) (input_jets st)
                = set_derivatives Stride s e (parameter_block_sizes cf) (input_jets st0)"
  proof (intro allI)
    fix s e
    have "set_derivatives Stride s e (parameter_block_sizes cf) (input_jets st)
            = set_derivatives Stride s e (parameter_block_sizes cf) (input_jets st1)"
      unfolding i by (rule set_derivatives_again[OF len1])
    also have "\<dots> = set_derivatives Stride s e (parameter_block_sizes cf) (input_jets st0)"
      by (rule d1)
    finally show "set_derivatives Stride s e (parameter_block_sizes cf) (input_jets st)
            = set_derivatives Stride s e (parameter_block_sizes cf) (input_jets st0)" .
  qed
  ultimately show ?case by blast
qed

lemma passes_calls:
  assumes "passes cf Stride N [0..<n] st0 = (True, st)"
      and "length (input_jets st0) = sum_list (parameter_block_sizes cf)"
      and "functor_calls st0 = []"
  shows "length (functor_calls st) = n \<and>
         (\<forall>q<n. fst (functor_calls st ! q)
                  = set_derivatives Stride (q * Stride)
                      (min ((q + 1) * Stride) (sum_list (parameter_block_sizes cf)))
                      (parameter_block_sizes cf) (input_jets st0) \<and>
                fst (snd (functor_calls st ! q))) \<and>
         output_jets st = (if n = 0 then output_jets st0
                           else snd (snd (functor_calls st ! (n - 1))))"
  using assms(1)
proof (induction n arbitrary: st)
  case 0
  then show ?case using assms(3) by simp
next
  case (Suc n)
  from Suc.prems obtain st1 where p: "passes cf Stride N [0..<n] st0 = (True, st1)"
    and b: "pass_body cf Stride N n st1 = (True, st)"
    by (rule passes_Suc_True)
  note IH = Suc.IH[OF p]
  note inp = passes_inputs[OF p assms(2)]
  from pass_body_True[OF b] obtain out where
    c: "functor_calls st = functor_calls st1 @
          [(set_derivatives Stride (n * Stride)
              (min ((n + 1) * Stride) (sum_list (parameter_block_sizes cf)))
              (parameter_block_sizes cf) (input_jets st1), True, out)]"
    and o: "output_jets st = out"
    by auto
  show ?case
    using IH inp by (auto simp add: c o nth_append less_Suc_eq)
qed

lemma passes_calls_prefix:
  assumes "passes cf Stride N [0..<n] st0 = (True, st)"
      and "passes cf Stride N [0..<m] st0 = (True, st')"
      and "m \<le> n"
  shows "take (length (functor_calls st')) (functor_calls st) = functor_calls st'"
  using assms(1,3)
proof (induction n arbitrary: st)
  case 0
  then show ?case using assms(2) by simp
next
  case (Suc n)
  from Suc.prems(1) obtain st1 where p: "passes cf Stride N [0..<n] st0 = (True, st1)"
    and b: "pass_body cf Stride N n st1 = (True, st)"
    by (rule passes_Suc_True)
  show ?case
  proof (cases "m = Suc n")
    case True
    then show ?thesis using Suc.prems(1) assms(2) by simp
  next
    case False
    then have "m \<le> n" using Suc.prems(2) by simp
    from Suc.IH[OF p this]
    have t: "take (length (functor_calls st')) (functor_calls st1) = functor_calls st'" .
    have "length (take (length (functor_calls st')) (functor_calls st1))
            = length (functor_calls st')"
      using t by simp
    then have "length (functor_calls st') \<le> length (functor_calls st1)"
      by simp
    moreover from pass_body_True[OF b] obtain x where "functor_calls st = functor_calls st1 @ [x]"
      by auto
    ultimately show ?thesis using t by simp
  qed
qed


lemma passes_residuals:
  assumes "passes cf Stride N [0..<n] st0 = (True, st)" and "n \<le> N"
  shows "residuals_buf st
           = (if 0 < n \<and> n = N
              then copy_residuals (num_residuals cf) (output_jets st) (residuals_buf st0)
              else residuals_buf st0)"
  using assms
proof (induction n arbitrary: st)
  case 0
  then show ?case by simp
next
  case (Suc n)
  from Suc.prems(1) obtain st1 where p: "passes cf Stride N [0..<n] st0 = (True, st1)"
    and b: "pass_body cf Stride N n st1 = (True, st)"
    by (rule passes_Suc_True)
  have "n \<le> N" "n \<noteq> N" using Suc.prems(2) by simp_all
  with Suc.IH[OF p] have r1: "residuals_buf st1 = residuals_buf st0" by simp
  from pass_body_True[OF b] obtain out where
    o: "output_jets st = out"
    and r: "residuals_buf st = (if n = N - 1 then copy_residuals (num_residuals cf) out (residuals_buf st1)
                               else residuals_buf st1)"
    by auto
  have "(n = N - 1) = (Suc n = N)" using Suc.prems(2) by auto
  then show ?case using r r1 o by simp
qed

lemma section_index:
  fixes c :: nat
  assumes "n * S \<le> c" and "c < Suc n * S"
  shows "c div S = n" and "c mod S = c - n * S"
proof -
  show d: "c div S = n"
    using assms by (intro div_nat_eqI) (simp_all add: mult.commute)
  have "c div S * S + c mod S = c" by simp
  then show "c mod S = c - n * S" using d by simp
qed

lemma passes_jacobians:
  assumes "passes cf Stride N [0..<n] st0 = (True, st)"
      and "length (input_jets st0) = sum_list (parameter_block_sizes cf)"
      and "functor_calls st0 = []"
      and "1 \<le> Stride"
  shows "length (jacobians_buf st) = length (jacobians_buf st0) \<and>
         (\<forall>i. length (jacobians_buf st ! i) = length (jacobians_buf st0 ! i)) \<and>
         (\<forall>i j c k. (i, j, c) \<in> set (parameter_cursors (parameter_block_sizes cf)) \<longrightarrow>
              c < n * Stride \<longrightarrow> k < num_residuals cf \<longrightarrow> i < length (jacobians_buf st0) \<longrightarrow>
              k * parameter_block_sizes cf ! i + j < length (jacobians_buf st0 ! i) \<longrightarrow>
              jacobians_buf st ! i ! (k * parameter_block_sizes cf ! i + j)
                = jet_v (snd (snd (functor_calls st ! (c div Stride))) ! k) ! (c mod Stride)) \<and>
         (\<forall>i off. (\<forall>j c k. (i, j, c) \<in> set (parameter_cursors (parameter_block_sizes cf)) \<longrightarrow>
                     c < n * Stride \<longrightarrow> k < num_residuals cf \<longrightarrow>
                     off \<noteq> k * parameter_block_sizes cf ! i + j) \<longrightarrow>
              jacobians_buf st ! i ! off = jacobians_buf st0 ! i ! off)"
  using assms(1)
proof (induction n arbitrary: st)
  case 0
  then show ?case by simp
next
  case (Suc n)
  let ?sizes = "parameter_block_sizes cf"
  let ?e = "min ((n + 1) * Stride) (sum_list ?sizes)"
  from Suc.prems obtain st1 where p: "passes cf Stride N [0..<n] st0 = (True, st1)"
    and b: "pass_body cf Stride N n st1 = (True, st)"
    by (rule passes_Suc_True)
  from Suc.IH[OF p]
  have len1: "length (jacobians_buf st1) = length (jacobians_buf st0)"
    and len1': "\<And>i. length (jacobians_buf st1 ! i) = length (jacobians_buf st0 ! i)"
    and W1: "\<And>i j c k. (i, j, c) \<in> set (parameter_cursors ?sizes) \<Longrightarrow>
              c < n * Stride \<Longrightarrow> k < num_residuals cf \<Longrightarrow> i < length (jacobians_buf st0) \<Longrightarrow>
              k * ?sizes ! i + j < length (jacobians_buf st0 ! i) \<Longrightarrow>
              jacobians_buf st1 ! i ! (k * ?sizes ! i + j)
                = jet_v (snd (snd (functor_calls st1 ! (c div Stride))) ! k) ! (c mod Stride)"
    and U1: "\<And>i off. (\<And>j c k. (i, j, c) \<in> set (parameter_cursors ?sizes) \<Longrightarrow>
                     c < n * Stride \<Longrightarrow> k < num_residuals cf \<Longrightarrow>
                     off \<noteq> k * ?sizes ! i + j) \<Longrightarrow>
              jacobians_buf st1 ! i ! off = jacobians_buf st0 ! i ! off"
    by blast+
  have calls1: "length (functor_calls st1) = n"
    using passes_calls[OF p assms(2,3)] by simp
  from pass_body_True[OF b] obtain out jets where
    c: "functor_calls st = functor_calls st1 @ [(jets, True, out)]"
    and J: "jacobians_buf st = copy_jacobian ?sizes (num_residuals cf) (n * Stride) ?e out
                                 (jacobians_buf st1)"
    by auto
  have S: "0 < Stride" using assms(4) by simp
  have "length (jacobians_buf st) = length (jacobians_buf st0)"
    by (simp add: J len1)
  moreover have "\<forall>i. length (jacobians_buf st ! i) = length (jacobians_buf st0 ! i)"
    by (simp add: J len1')
  moreover have "\<forall>i j c k. (i, j, c) \<in> set (parameter_cursors ?sizes) \<longrightarrow>
              c < Suc n * Stride \<longrightarrow> k < num_residuals cf \<longrightarrow> i < length (jacobians_buf st0) \<longrightarrow>
              k * ?sizes ! i + j < length (jacobians_buf st0 ! i) \<longrightarrow>
              jacobians_buf st ! i ! (k * ?sizes ! i + j)
                = jet_v (snd (snd (functor_calls st ! (c div Stride))) ! k) ! (c mod Stride)"
  proof (intro allI impI)
    fix i j c k
    assume m: "(i, j, c) \<in> set (parameter_cursors ?sizes)" and cn: "c < Suc n * Stride"
      and k: "k < num_residuals cf" and i: "i < length (jacobians_buf st0)"
      and r: "k * ?sizes ! i + j < length (jacobians_buf st0 ! i)"
    show "jacobians_buf st ! i ! (k * ?sizes ! i + j)
            = jet_v (snd (snd (functor_calls st ! (c div Stride))) ! k) ! (c mod Stride)"
    proof (cases "c < n * Stride")
      case True
      have "jacobians_buf st ! i ! (k * ?sizes ! i + j)
              = jacobians_buf st1 ! i ! (k * ?sizes ! i + j)"
        unfolding J
      proof (rule copy_jacobian_untouched)
        fix j' c' k'
        assume m': "(i, j', c') \<in> set (parameter_cursors ?sizes)" and "n * Stride \<le> c'"
        then have "c \<noteq> c'" using True by simp
        then show "k * ?sizes ! i + j \<noteq> k' * ?sizes ! i + j'"
          using address_column[OF m m'] by blast
      qed
      also have "\<dots> = jet_v (snd (snd (functor_calls st1 ! (c div Stride))) ! k) ! (c mod Stride)"
        using m True k i r by (rule W1)
      also have "functor_calls st1 ! (c div Stride) = functor_calls st ! (c div Stride)"
      proof -
        have "c div Stride < n" using True S by (simp add: less_mult_imp_div_less)
        then show ?thesis by (simp add: c nth_append calls1)
      qed
      finally show ?thesis .
    next
      case False
      then have lo: "n * Stride \<le> c" by simp
      have "c < sum_list ?sizes" using m by (rule parameter_cursors_bound)
      then have hi: "c < ?e" using cn by simp
      have idx: "c div Stride = n" "c mod Stride = c - n * Stride"
        using section_index[OF lo cn] by simp_all
      have "jacobians_buf st ! i ! (k * ?sizes ! i + j) = jet_v (out ! k) ! (c - n * Stride)"
        unfolding J using m lo hi k i r
        by (intro copy_jacobian_written) (simp_all add: len1 len1')
      then show ?thesis by (simp add: idx c nth_append calls1)
    qed
  qed
  moreover have "\<forall>i off. (\<forall>j c k. (i, j, c) \<in> set (parameter_cursors ?sizes) \<longrightarrow>
                     c < Suc n * Stride \<longrightarrow> k < num_residuals cf \<longrightarrow>
                     off \<noteq> k * ?sizes ! i + j) \<longrightarrow>
              jacobians_buf st ! i ! off = jacobians_buf st0 ! i ! off"
  proof (intro allI impI)
    fix i off
    assume no: "\<forall>j c k. (i, j, c) \<in> set (parameter_cursors ?sizes) \<longrightarrow>
                     c < Suc n * Stride \<longrightarrow> k < num_residuals cf \<longrightarrow>
                     off \<noteq> k * ?sizes ! i + j"
    have "jacobians_buf st ! i ! off = jacobians_buf st1 ! i ! off"
      unfolding J
    proof (rule copy_jacobian_untouched)
      fix j c k
      assume "(i, j, c) \<in> set (parameter_cursors ?sizes)" "c < ?e" "k < num_residuals cf"
      then show "off \<noteq> k * ?sizes ! i + j" using no by simp
    qed
    also have "\<dots> = jacobians_buf st0 ! i ! off"
    proof (rule U1)
      fix j c k
      assume "(i, j, c) \<in> set (parameter_cursors ?sizes)" "c < n * Stride" "k < num_residuals cf"
      then show "off \<noteq> k * ?sizes ! i + j" using no by simp
    qed
    finally show "jacobians_buf st ! i ! off = jacobians_buf st0 ! i ! off" .
  qed
  ultimately show ?case by blast
qed

subsection \<open>Rounding to single precision\<close>

lemma bit_length_bounds:
  "0 < n \<Longrightarrow> 2 ^ (bit_length n - 1) \<le> n \<and> n < 2 ^ bit_length n"
proof (induction n rule: bit_length.induct)
  case (1 n)
  show ?case
  proof (cases "n div 2 = 0")
    case True
    then have "n = 1" using 1(2) by auto
    then show ?thesis by (simp add: bit_length.simps)
  next
    case False
    then have "2 ^ (bit_length (n div 2) - 1) \<le> n div 2 \<and> n div 2 < 2 ^ bit_length (n div 2)"
      using 1 by simp
    moreover have "0 < bit_length (n div 2)" using False by (simp add: bit_length.simps[of "n div 2"])
    ultimately show ?thesis using 1(2)
      by (simp add: bit_length.simps[of n]) (cases "bit_length (n div 2)"; simp; linarith)
  qed
qed


lemma exponent_bounds:
  assumes "0 < x"
  shows "2 powi exponent x \<le> x" and "x < 2 powi (exponent x + 1)"
proof -
  have "2 powi exponent x \<le> x \<and> x < 2 powi (exponent x + 1)"
  proof (cases "1 \<le> x")
    case True
    define n where "n = nat \<lfloor>x\<rfloor>"
    have n: "0 < n" "real n \<le> x" "x < real n + 1"
      using True by (simp_all add: n_def)
    have e: "exponent x = int (bit_length n) - 1"
      using True by (simp add: exponent_def n_def)
    from bit_length_bounds[OF n(1)]
    have b: "2 ^ (bit_length n - 1) \<le> n" "n < 2 ^ bit_length n" by simp_all
    have pos: "0 < bit_length n" using n(1) by (simp add: bit_length.simps[of n])
    have "(2::real) powi exponent x = 2 ^ (bit_length n - 1)"
      using pos by (simp add: e power_int_def nat_diff_distrib')
    also have "\<dots> = real (2 ^ (bit_length n - 1))" by simp
    also have "\<dots> \<le> real n" using b(1) by (simp only: of_nat_le_iff)
    finally have lo: "2 powi exponent x \<le> x" using n(2) by linarith
    have "n + 1 \<le> 2 ^ bit_length n" using b(2) by simp
    then have "real (n + 1) \<le> real (2 ^ bit_length n)" by (simp only: of_nat_le_iff)
    then have "x < 2 ^ bit_length n" using n(3) by simp
    also have "(2::real) ^ bit_length n = 2 powi (exponent x + 1)"
      by (simp add: e power_int_def)
    finally show ?thesis using lo by simp
  next
    case False
    define y where "y = 1 / x"
    have y: "1 < y" using False assms by (simp add: y_def)
    define t where "t = nat (\<lceil>y\<rceil> - 1)"
    have t: "0 < t" "real t < y" "y \<le> real t + 1"
      using y by (simp_all add: t_def) linarith+
    have e: "exponent x = - int (bit_length t)"
      using False by (simp add: exponent_def t_def y_def)
    from bit_length_bounds[OF t(1)]
    have b: "2 ^ (bit_length t - 1) \<le> t" "t < 2 ^ bit_length t" by simp_all
    have pos: "0 < bit_length t" using t(1) by (simp add: bit_length.simps[of t])
    have "t + 1 \<le> 2 ^ bit_length t" using b(2) by simp
    then have "real (t + 1) \<le> real (2 ^ bit_length t)" by (simp only: of_nat_le_iff)
    then have up: "y \<le> 2 ^ bit_length t" using t(3) by simp
    have "(2::real) ^ (bit_length t - 1) = real (2 ^ (bit_length t - 1))" by simp
    also have "\<dots> \<le> real t" using b(1) by (simp only: of_nat_le_iff)
    also have "\<dots> < y" by (rule t(2))
    finally have dn: "2 ^ (bit_length t - 1) < y" .
    have x: "x = 1 / y" using assms by (simp add: y_def)
    have "(2::real) powi exponent x = 1 / 2 ^ bit_length t"
      by (simp add: e power_int_minus field_simps)
    also have "\<dots> \<le> 1 / y" using up y by (intro divide_left_mono) simp_all
    finally have lo: "2 powi exponent x \<le> x" by (simp add: x)
    have "exponent x + 1 = - int (bit_length t - 1)" using pos by (simp add: e)
    then have "(2::real) powi (exponent x + 1) = 1 / 2 ^ (bit_length t - 1)"
      by (simp add: power_int_minus field_simps)
    moreover have "1 / y < 1 / 2 ^ (bit_length t - 1)"
      using dn y by (intro divide_strict_left_mono) simp_all
    ultimately have "x < 2 powi (exponent x + 1)" by (simp add: x)
    then show ?thesis using lo by simp
  qed
  then show "2 powi exponent x \<le> x" and "x < 2 powi (exponent x + 1)" by simp_all
qed

lemma exponent_mono:
  assumes "0 < x" and "x \<le> y"
  shows "exponent x \<le> exponent y"
proof (rule ccontr)
  assume "\<not> exponent x \<le> exponent y"
  then have "exponent y + 1 \<le> exponent x" by simp
  then have "(2::real) powi (exponent y + 1) \<le> 2 powi exponent x"
    by (intro power_int_increasing) simp_all
  moreover have "y < 2 powi (exponent y + 1)" using assms by (intro exponent_bounds) simp
  moreover have "2 powi exponent x \<le> x" using assms(1) by (rule exponent_bounds)
  ultimately show False using assms(2) by linarith
qed

lemma exponent_unique:
  assumes "2 powi e \<le> x" and "x < 2 powi (e + 1)"
  shows "exponent x = e"
proof -
  have pos: "0 < x" using assms(1) zero_less_power_int[of "2::real" e] by linarith
  note b = exponent_bounds[OF pos]
  have "\<not> exponent x + 1 \<le> e"
  proof
    assume "exponent x + 1 \<le> e"
    then have "(2::real) powi (exponent x + 1) \<le> 2 powi e"
      by (intro power_int_increasing) simp_all
    then show False using b(2) assms(1) by linarith
  qed
  moreover have "\<not> e + 1 \<le> exponent x"
  proof
    assume "e + 1 \<le> exponent x"
    then have "(2::real) powi (e + 1) \<le> 2 powi exponent x"
      by (intro power_int_increasing) simp_all
    then show False using b(1) assms(2) by linarith
  qed
  ultimately show ?thesis by simp
qed

lemma round_half_even_bounds:
  "\<lfloor>t\<rfloor> \<le> round_half_even t" "round_half_even t \<le> \<lfloor>t\<rfloor> + 1"
  by (simp_all add: round_half_even_def)

lemma round_half_even_int [simp]: "round_half_even (of_int k) = k"
  by (simp add: round_half_even_def)

lemma round_half_even_ge:
  assumes "of_int k \<le> t"
  shows "k \<le> round_half_even t"
proof -
  have "k \<le> \<lfloor>t\<rfloor>" using assms by (simp add: le_floor_iff)
  then show ?thesis using round_half_even_bounds(1)[of t] by linarith
qed

lemma round_half_even_le:
  assumes "t \<le> of_int k"
  shows "round_half_even t \<le> k"
proof (cases "t = of_int k")
  case True
  then show ?thesis by simp
next
  case False
  then have "t < of_int k" using assms by simp
  then have "\<lfloor>t\<rfloor> < k" by (simp add: floor_less_iff)
  then show ?thesis using round_half_even_bounds(2)[of t] by linarith
qed

lemma round_half_even_above:
  assumes "of_int k + 1 / 2 < t"
  shows "k + 1 \<le> round_half_even t"
proof (cases "\<lfloor>t\<rfloor> = k")
  case True
  then have "1 / 2 < t - of_int \<lfloor>t\<rfloor>" using assms by simp
  then show ?thesis using True by (simp add: round_half_even_def)
next
  case False
  have "k \<le> \<lfloor>t\<rfloor>" using assms by (simp add: le_floor_iff)
  then have "k + 1 \<le> \<lfloor>t\<rfloor>" using False by simp
  then show ?thesis using round_half_even_bounds(1)[of t] by linarith
qed

lemma round_half_even_mono:
  assumes "s \<le> t"
  shows "round_half_even s \<le> round_half_even t"
proof (cases "\<lfloor>s\<rfloor> = \<lfloor>t\<rfloor>")
  case True
  have "s - of_int \<lfloor>s\<rfloor> \<le> t - of_int \<lfloor>t\<rfloor>" using assms True by simp
  then show ?thesis using True by (auto simp add: round_half_even_def)
next
  case False
  have "\<lfloor>s\<rfloor> \<le> \<lfloor>t\<rfloor>" using assms by (rule floor_mono)
  then have "\<lfloor>s\<rfloor> + 1 \<le> \<lfloor>t\<rfloor>" using False by simp
  then show ?thesis
    using round_half_even_bounds(2)[of s] round_half_even_bounds(1)[of t] by linarith
qed

lemma to_float_zero [simp]: "to_float 0 = 0"
  by (simp add: to_float_def)

lemma rounded_bounds:
  fixes p :: nat
  assumes "0 < x"
  defines "u \<equiv> (2::real) powi (exponent x - int p)"
  shows "2 powi exponent x \<le> of_int (round_half_even (x / u)) * u"
    and "of_int (round_half_even (x / u)) * u \<le> 2 powi (exponent x + 1)"
proof -
  let ?r = "round_half_even (x / u)"
  have u: "0 < u" by (simp add: u_def)
  have lo: "2 ^ p * u = 2 powi exponent x"
    by (simp add: u_def power_int_diff)
  have hi: "2 ^ (p + 1) * u = 2 powi (exponent x + 1)"
    by (simp add: u_def power_int_diff power_int_add)
  have "2 ^ p * u \<le> x" using exponent_bounds(1)[OF assms(1)] by (simp only: lo)
  then have "of_int (2 ^ p) \<le> x / u" using u by (simp add: pos_le_divide_eq)
  then have "2 ^ p \<le> ?r" by (rule round_half_even_ge)
  then have "(of_int (2 ^ p) :: real) \<le> of_int ?r" by (simp only: of_int_le_iff)
  then have "2 ^ p * u \<le> of_int ?r * u" using u by simp
  then show "2 powi exponent x \<le> of_int ?r * u" by (simp only: lo)
  have "x \<le> 2 ^ (p + 1) * u" using exponent_bounds(2)[OF assms(1)] by (simp only: hi)
  then have "x / u \<le> of_int (2 ^ (p + 1))" using u by (simp add: pos_divide_le_eq)
  then have "?r \<le> 2 ^ (p + 1)" by (rule round_half_even_le)
  then have "(of_int ?r :: real) \<le> of_int (2 ^ (p + 1))" by (simp only: of_int_le_iff)
  then have "of_int ?r * u \<le> 2 ^ (p + 1) * u" using u by simp
  then show "of_int ?r * u \<le> 2 powi (exponent x + 1)" by (simp only: hi)
qed

lemma to_float_bounds:
  assumes "0 < x"
  shows "2 powi exponent x \<le> to_float x" and "to_float x \<le> 2 powi (exponent x + 1)"
  using rounded_bounds[OF assms, of 23] assms by (simp_all add: to_float_def)

lemma to_float_pos: "0 < x \<Longrightarrow> 0 < to_float x"
  using to_float_bounds(1)[of x] zero_less_power_int[of "2::real" "exponent x"] by linarith

lemma to_float_mono:
  assumes "0 < x" and "x \<le> y"
  shows "to_float x \<le> to_float y"
proof (cases "exponent x = exponent y")
  case True
  define u where "u = (2::real) powi (exponent x - 23)"
  have u: "0 < u" by (simp add: u_def)
  have "x / u \<le> y / u" using assms(2) u by (simp add: divide_right_mono)
  then have "round_half_even (x / u) \<le> round_half_even (y / u)" by (rule round_half_even_mono)
  then have "(of_int (round_half_even (x / u)) :: real) \<le> of_int (round_half_even (y / u))"
    by (simp only: of_int_le_iff)
  then have "of_int (round_half_even (x / u)) * u \<le> of_int (round_half_even (y / u)) * u"
    using u by simp
  moreover have "to_float x = of_int (round_half_even (x / u)) * u"
    using assms by (simp add: to_float_def u_def)
  moreover have "to_float y = of_int (round_half_even (y / u)) * u"
    using assms by (simp add: to_float_def u_def True)
  ultimately show ?thesis by simp
next
  case False
  have y: "0 < y" using assms by linarith
  have "exponent x \<le> exponent y" using assms by (rule exponent_mono)
  then have "exponent x + 1 \<le> exponent y" using False by simp
  then have "(2::real) powi (exponent x + 1) \<le> 2 powi exponent y"
    by (intro power_int_increasing) simp_all
  then show ?thesis
    using to_float_bounds(2)[OF assms(1)] to_float_bounds(1)[OF y] by linarith
qed

lemma to_float_exact:
  assumes "0 < x" and "x / 2 powi (exponent x - 23) = of_int k"
  shows "to_float x = x"
proof -
  have "to_float x = of_int (round_half_even (of_int k)) * 2 powi (exponent x - 23)"
    using assms by (simp add: to_float_def)
  also have "\<dots> = x / 2 powi (exponent x - 23) * 2 powi (exponent x - 23)"
    by (simp only: round_half_even_int assms(2))
  also have "\<dots> = x" by simp
  finally show ?thesis .
qed

lemma to_float_nat:
  assumes "n \<le> 2 ^ 24"
  shows "to_float (real n) = real n"
proof (cases "n = 0")
  case True
  then show ?thesis by simp
next
  case False
  then have pos: "0 < real n" by simp
  define e where "e = exponent (real n)"
  have "real n \<le> real (2 ^ 24)" using assms by (simp only: of_nat_le_iff)
  then have n24: "real n \<le> 2 powi 24" by simp
  have lo: "2 powi e \<le> real n" unfolding e_def using pos by (rule exponent_bounds)
  show ?thesis
  proof (cases "e \<le> 23")
    case True
    define k where "k = nat (23 - e)"
    have "e - 23 = - int k" using True by (simp add: k_def)
    then have "(2::real) powi (e - 23) = 1 / 2 ^ k"
      by (simp add: power_int_minus divide_inverse)
    then have "real n / 2 powi (e - 23) = real n * 2 ^ k" by simp
    also have "\<dots> = of_int (int n * 2 ^ k)" by simp
    finally have "real n / 2 powi (exponent (real n) - 23) = of_int (int n * 2 ^ k)"
      by (simp only: e_def)
    with pos show ?thesis by (rule to_float_exact)
  next
    case False
    then have "24 \<le> e" by simp
    then have "(2::real) powi 24 \<le> 2 powi e" by (intro power_int_increasing) simp_all
    then have n: "real n = 2 powi 24" using n24 lo by linarith
    have "2 powi 24 \<le> real n" "real n < 2 powi (24 + 1)" by (simp_all add: n)
    then have "exponent (real n) = 24" by (rule exponent_unique)
    then have "real n / 2 powi (exponent (real n) - 23) = of_int (2 ^ 23)" by (simp add: n)
    with pos show ?thesis by (rule to_float_exact)
  qed
qed

lemma exponent_nonneg:
  assumes "1 \<le> x"
  shows "0 \<le> exponent x"
proof -
  have "exponent 1 = 0" by (rule exponent_unique) simp_all
  moreover have "exponent 1 \<le> exponent x" using assms by (intro exponent_mono) simp_all
  ultimately show ?thesis by simp
qed

lemma float_quotient_ceiling:
  assumes S: "0 < S" and P: "0 < P" and P24: "P \<le> 2 ^ 24"
  shows "\<lceil>to_float (real P / real S)\<rceil> = \<lceil>real P / real S\<rceil>"
proof -
  define q where "q = real P / real S"
  define n where "n = nat \<lceil>q\<rceil>"
  have q: "0 < q" using S P by (simp add: q_def)
  have qP: "q \<le> real P" using S by (simp add: q_def pos_divide_le_eq) (simp add: mult_le_cancel_left1)
  have c: "0 < \<lceil>q\<rceil>" using q by simp
  have n: "real n - 1 < q" "q \<le> real n" using c by (simp_all add: n_def) linarith+
  have n1: "1 \<le> n" using c unfolding n_def by linarith
  have "\<lceil>q\<rceil> \<le> int P" using qP by (simp add: ceiling_le_iff)
  then have nP: "n \<le> P" unfolding n_def by linarith
  then have n24: "n \<le> 2 ^ 24" using P24 by simp
  have "to_float q \<le> to_float (real n)" using q n(2) by (rule to_float_mono)
  then have upper: "to_float q \<le> real n" by (simp only: to_float_nat[OF n24])
  have lower: "real n - 1 < to_float q"
  proof (cases "q = real n")
    case True
    then show ?thesis by (simp add: to_float_nat[OF n24])
  next
    case False
    then have qn: "q < real n" using n(2) by simp
    show ?thesis
    proof (cases "n = 1")
      case True
      then show ?thesis using to_float_pos[OF q] by simp
    next
      case False
      define m where "m = n - 1"
      have m: "1 \<le> m" "real m < q" "q < real m + 1" "real m = real n - 1"
        using False n1 n(1) qn by (simp_all add: m_def)
      define e where "e = exponent q"
      have lo: "2 powi e \<le> q" unfolding e_def using q by (rule exponent_bounds)
      have e0: "0 \<le> e" unfolding e_def using m(1,2) by (intro exponent_nonneg) simp
      have "real n \<le> real (2 ^ 24)" using n24 by (simp only: of_nat_le_iff)
      then have lt: "2 powi e < (2::real) powi 24" using lo qn by simp
      have "e < 24"
      proof (rule ccontr)
        assume "\<not> e < 24"
        then have "24 \<le> e" by simp
        then have "(2::real) powi 24 \<le> 2 powi e" by (intro power_int_increasing) simp_all
        then show False using lt by simp
      qed
      define k where "k = nat (23 - e)"
      define u where "u = (2::real) powi (e - 23)"
      have u: "0 < u" by (simp add: u_def)
      have "e - 23 = - int k" using \<open>e < 24\<close> by (simp add: k_def)
      then have uk: "u = 1 / 2 ^ k" by (simp add: u_def power_int_minus divide_inverse)
      have "(2::real) powi e = real (2 ^ nat e)" using e0 by (simp add: power_int_def)
      moreover have "real (2 ^ nat e) \<noteq> q"
      proof
        assume a: "real (2 ^ nat e) = q"
        then have "m < 2 ^ nat e" "2 ^ nat e < m + 1"
          using m(2,3) by (simp_all only: of_nat_less_iff[symmetric] of_nat_add of_nat_1)
        then show False by simp
      qed
      ultimately have lo': "2 powi e < q" using lo by simp
      have "m * S < P"
      proof -
        have "real m * real S < real P" using m(2) S by (simp add: q_def pos_less_divide_eq)
        then have "real (m * S) < real P" by simp
        then show ?thesis by (simp only: of_nat_less_iff)
      qed
      then have "m * S + 1 \<le> P" by simp
      then have "real (m * S + 1) \<le> real P" by (simp only: of_nat_le_iff)
      then have "real m * real S + 1 \<le> real P" by simp
      then have gap: "1 / real S \<le> q - real m"
        using S by (simp add: q_def field_simps)
      have "u * 2 ^ 23 = 2 powi e" by (simp add: u_def power_int_diff)
      then have "u * 2 ^ 23 < q" using lo' by simp
      also have "\<dots> \<le> 2 ^ 24 / real S"
      proof -
        have "real P \<le> real (2 ^ 24)" using P24 by (simp only: of_nat_le_iff)
        then show ?thesis using S by (simp add: q_def divide_right_mono)
      qed
      finally have "u / 2 < 1 / real S" by simp
      then have half: "u / 2 < q - real m" using gap by linarith
      have "of_int (int m * 2 ^ k) + 1 / 2 < q / u"
      proof -
        have "real m + u / 2 < q" using half by simp
        then have "(real m + u / 2) / u < q / u" using u by (simp only: divide_strict_right_mono)
        moreover have "(real m + u / 2) / u = real m * 2 ^ k + 1 / 2"
          by (simp add: uk field_simps)
        ultimately show ?thesis by simp
      qed
      then have "int m * 2 ^ k + 1 \<le> round_half_even (q / u)" by (rule round_half_even_above)
      then have "(of_int (int m * 2 ^ k + 1) :: real) \<le> of_int (round_half_even (q / u))"
        by (simp only: of_int_le_iff)
      then have "of_int (int m * 2 ^ k + 1) * u \<le> of_int (round_half_even (q / u)) * u"
        using u by simp
      moreover have "of_int (int m * 2 ^ k + 1) * u = real m + u"
        by (simp add: uk field_simps)
      moreover have "to_float q = of_int (round_half_even (q / u)) * u"
        using q by (simp add: to_float_def u_def e_def)
      ultimately have "real m + u \<le> to_float q" by simp
      then show ?thesis using u m(4) by linarith
    qed
  qed
  have "\<lceil>to_float q\<rceil> = int n"
    using lower upper by (intro ceiling_unique) simp_all
  moreover have "\<lceil>q\<rceil> = int n" using c by (simp add: n_def)
  ultimately show ?thesis by (simp add: q_def)
qed

lemma num_strides_of_exact:
  assumes S: "0 < S" and P: "0 < P" and P24: "P \<le> 2 ^ 24"
  shows "num_strides_of P S = nat \<lceil>real P / real S\<rceil>"
proof (cases "S \<le> 2 ^ 24")
  case True
  then show ?thesis
    using float_quotient_ceiling[OF S P P24]
    by (simp add: num_strides_of_def to_float_nat[OF True] to_float_nat[OF P24])
next
  case False
  then have "2 ^ 24 \<le> S" by simp
  then have "real (2 ^ 24) \<le> real S" by (simp only: of_nat_le_iff)
  with zero_less_power[of "2::real" 24] have "to_float (real (2 ^ 24)) \<le> to_float (real S)"
    by (intro to_float_mono) simp_all
  then have big: "real (2 ^ 24) \<le> to_float (real S)" by (simp only: to_float_nat[OF order_refl])
  have "real P \<le> real (2 ^ 24)" using P24 by (simp only: of_nat_le_iff)
  then have le: "real P \<le> to_float (real S)" using big by linarith
  define q where "q = real P / to_float (real S)"
  have Sp: "0 < to_float (real S)" using big by simp
  have q: "0 < q" "q \<le> 1" using P Sp le by (simp_all add: q_def)
  have "to_float q \<le> to_float (real 1)" using q by (intro to_float_mono) simp_all
  then have "to_float q \<le> 1" using to_float_nat[of 1] by simp
  moreover have "0 < to_float q" using q(1) by (rule to_float_pos)
  ultimately have "\<lceil>to_float q\<rceil> = 1" by (intro ceiling_unique) simp_all
  then have a: "num_strides_of P S = 1"
    by (simp add: num_strides_of_def q_def to_float_nat[OF P24])
  have "P < S" using False P24 by simp
  then have "real P / real S \<le> 1" "0 < real P / real S" using P S by simp_all
  then have "\<lceil>real P / real S\<rceil> = 1" by (intro ceiling_unique) simp_all
  then show ?thesis using a by simp
qed

subsection \<open>The number of strides\<close>

text \<open>Up to \<open>2 ^ 24\<close> parameters the count computed in single precision is the exact
  ceiling of \<open>P / S\<close>.\<close>

lemma ceiling_div:
  assumes "0 < S"
  shows "nat \<lceil>real P / real S\<rceil> = (P + S - 1) div S"
proof -
  define q where "q = (P + S - 1) div S"
  define m where "m = q * S"
  have lo: "m \<le> P + S - 1"
    unfolding m_def q_def by simp
  have hi: "P + S - 1 < S + m"
    unfolding m_def q_def using assms by (rule dividend_less_div_times)
  have "P \<le> m" using hi assms by arith
  then have "real P \<le> real m" by (simp only: of_nat_le_iff)
  then have a: "real P \<le> real q * real S" by (simp add: m_def)
  have b: "(real q - 1) * real S < real P"
  proof (cases q)
    case 0
    have "- real S < 0" using assms by simp
    also have "0 \<le> real P" by simp
    finally show ?thesis using 0 by simp
  next
    case (Suc r)
    then have "m = r * S + S" by (simp add: m_def)
    then have "r * S < P" using lo assms by arith
    then have "real (r * S) < real P" by (simp only: of_nat_less_iff)
    then show ?thesis using Suc by simp
  qed
  have "\<lceil>real P / real S\<rceil> = int q"
  proof (rule ceiling_unique)
    show "of_int (int q) - 1 < real P / real S"
      using b assms by (simp add: pos_less_divide_eq)
    show "real P / real S \<le> of_int (int q)"
      using a assms by (simp add: pos_divide_le_eq)
  qed
  then show ?thesis by (simp add: q_def)
qed

lemma num_strides_of_none [simp]: "num_strides_of 0 S = 0"
  by (simp add: num_strides_of_def)

lemma num_strides_of_div:
  assumes "0 < S" and "P \<le> 2 ^ 24"
  shows "num_strides_of P S = (P + S - 1) div S"
proof (cases "P = 0")
  case True
  then show ?thesis using assms(1) by simp
next
  case False
  then have "0 < P" by simp
  with assms(1) have "num_strides_of P S = nat \<lceil>real P / real S\<rceil>"
    using assms(2) by (rule num_strides_of_exact)
  then show ?thesis by (simp only: ceiling_div[OF assms(1)])
qed

lemma num_strides_of_pos:
  assumes "0 < S" and "1 \<le> P"
  shows "0 < num_strides_of P S"
proof -
  have "0 < to_float (real P)" "0 < to_float (real S)"
    using assms by (simp_all add: to_float_pos)
  then have "0 < to_float (real P) / to_float (real S)" by simp
  then have "0 < to_float (to_float (real P) / to_float (real S))" by (rule to_float_pos)
  then show ?thesis by (simp add: num_strides_of_def)
qed

subsection \<open>Evaluate with jacobians\<close>

lemma scratch_fields [simp]:
  "length (input_jets (scratch cf Stride parameters residuals jacs))
     = sum_list (parameter_block_sizes cf)"
  "functor_calls (scratch cf Stride parameters residuals jacs) = []"
  "residuals_buf (scratch cf Stride parameters residuals jacs) = residuals"
  "jacobians_buf (scratch cf Stride parameters residuals jacs) = jacs"
  "length (output_jets (scratch cf Stride parameters residuals jacs)) = num_residuals cf"
  by (simp_all add: scratch_def)

lemma Evaluate_Some:
  assumes "Evaluate cf Stride parameters residuals (Some jacs) = Some E"
  obtains st where "0 < num_residuals cf"
    and "passes cf Stride (num_strides_of (sum_list (parameter_block_sizes cf)) Stride)
           [0..<num_strides_of (sum_list (parameter_block_sizes cf)) Stride]
           (scratch cf Stride parameters residuals jacs) = (returned E, st)"
    and "residuals_out E = residuals_buf st"
    and "jacobians_out E = Some (jacobians_buf st)"
    and "calls E = functor_calls st"
  using assms
  by (auto simp add: Evaluate_def Let_def split: if_splits prod.splits)

lemma Evaluate_jacobians:
  assumes "0 < num_residuals cf"
      and "passes cf Stride (num_strides_of (sum_list (parameter_block_sizes cf)) Stride)
           [0..<num_strides_of (sum_list (parameter_block_sizes cf)) Stride]
           (scratch cf Stride parameters residuals jacs) = (ok, st)"
  shows "Evaluate cf Stride parameters residuals (Some jacs)
           = Some \<lparr>returned = ok, residuals_out = residuals_buf st,
                   jacobians_out = Some (jacobians_buf st), calls = functor_calls st\<rparr>"
  using assms by (simp add: Evaluate_def Let_def)

lemma scratch_derivatives:
  "set_derivatives Stride s e (parameter_block_sizes cf)
     (input_jets (scratch cf Stride parameters residuals jacs))
   = map (\<lambda>(i, j, c). \<lparr>jet_a = parameters ! i ! j, jet_v = derivative_seed Stride s e c\<rparr>)
       (parameter_cursors (parameter_block_sizes cf))"
  by (rule nth_equalityI)
     (auto simp add: set_derivatives_def scratch_def split_beta)

lemma derivative_seed_nth:
  assumes "t < Stride"
  shows "derivative_seed Stride s e c ! t = (if s \<le> c \<and> c < e \<and> c - s = t then 1 else 0)"
  using assms by (auto simp add: derivative_seed_def nth_list_update)

lemma length_derivative_seed [simp]: "length (derivative_seed Stride s e c) = Stride"
  by (simp add: derivative_seed_def)

lemma section_seed:
  assumes "t < Stride" and "c < P"
  shows "derivative_seed Stride (q * Stride) (min ((q + 1) * Stride) P) c ! t
           = (if c = q * Stride + t then 1 else 0)"
  using assms by (auto simp add: derivative_seed_nth)

lemma strides_cover:
  assumes "0 < S" and "P \<le> 2 ^ 24"
  shows "P \<le> num_strides_of P S * S"
proof -
  have "P + S - 1 < S + (P + S - 1) div S * S"
    using assms(1) by (rule dividend_less_div_times)
  then show ?thesis using assms(1) by (simp add: num_strides_of_div[OF assms])
qed

lemma pass_body_residuals:
  "q \<noteq> N - 1 \<Longrightarrow> residuals_buf (snd (pass_body cf Stride N q st)) = residuals_buf st"
  by (simp add: pass_body_def Let_def split: prod.splits)


lemma passes_jacobians_length:
  assumes "passes cf Stride N [0..<n] st0 = (True, st)"
      and "length (input_jets st0) = sum_list (parameter_block_sizes cf)"
      and "functor_calls st0 = []"
      and "1 \<le> Stride"
  shows "length (jacobians_buf st) = length (jacobians_buf st0)"
    and "length (jacobians_buf st ! i) = length (jacobians_buf st0 ! i)"
  using passes_jacobians[OF assms] by blast+

lemma passes_jacobians_written:
  assumes "passes cf Stride N [0..<n] st0 = (True, st)"
      and "length (input_jets st0) = sum_list (parameter_block_sizes cf)"
      and "functor_calls st0 = []"
      and "1 \<le> Stride"
      and "(i, j, c) \<in> set (parameter_cursors (parameter_block_sizes cf))"
      and "c < n * Stride" and "k < num_residuals cf" and "i < length (jacobians_buf st0)"
      and "k * parameter_block_sizes cf ! i + j < length (jacobians_buf st0 ! i)"
  shows "jacobians_buf st ! i ! (k * parameter_block_sizes cf ! i + j)
           = jet_v (snd (snd (functor_calls st ! (c div Stride))) ! k) ! (c mod Stride)"
  using passes_jacobians[OF assms(1-4)] assms(5-9) by blast

lemma passes_jacobians_untouched:
  assumes "passes cf Stride N [0..<n] st0 = (True, st)"
      and "length (input_jets st0) = sum_list (parameter_block_sizes cf)"
      and "functor_calls st0 = []"
      and "1 \<le> Stride"
      and "\<And>j c k. (i, j, c) \<in> set (parameter_cursors (parameter_block_sizes cf)) \<Longrightarrow>
             c < n * Stride \<Longrightarrow> k < num_residuals cf \<Longrightarrow>
             off \<noteq> k * parameter_block_sizes cf ! i + j"
  shows "jacobians_buf st ! i ! off = jacobians_buf st0 ! i ! off"
  using passes_jacobians[OF assms(1-4)] assms(5) by blast

subsection \<open>Functors written against the dual-number engine\<close>

lemma sum_list_single:
  fixes g :: "nat \<Rightarrow> real"
  assumes "c < n"
  shows "sum_list (map (\<lambda>c'. g c' * (if c' = c then 1 else 0)) [0..<n]) = g c"
proof -
  have "sum_list (map (\<lambda>c'. g c' * (if c' = c then 1 else 0)) [0..<n])
          = (\<Sum>c'<n. g c' * (if c' = c then 1 else 0))"
    by (rule sum_list_upt)
  also have "\<dots> = (\<Sum>c'\<in>{..<n}. if c' = c then g c' else 0)"
    by (rule sum.cong) simp_all
  also have "\<dots> = g c" using assms by (simp add: sum.delta')
  finally show ?thesis .
qed

lemma dual_number_residuals_nth:
  assumes "k < n" and "t < width"
  shows "jet_v (dual_number_residuals f f' width jets n ! k) ! t
           = sum_list (map (\<lambda>c. f' (map jet_a jets) k c * jet_v (jets ! c) ! t) [0..<length jets])"
  using assms by (simp add: dual_number_residuals_def)

lemma length_dual_number_residuals [simp]:
  "length (dual_number_residuals f f' width jets n) = n"
  by (simp add: dual_number_residuals_def)

lemma dual_number_column:
  assumes "length jets = P" and "c < P" and "k < n" and "1 \<le> W"
      and sizes: "sum_list sizes = P"
  shows "jet_v (dual_number_residuals f f' W
                  (set_derivatives W (c div W * W) (min ((c div W + 1) * W) P) sizes jets) n ! k)
           ! (c mod W)
         = f' (map jet_a jets) k c"
proof -
  define q where "q = c div W"
  define dj where "dj = set_derivatives W (q * W) (min ((q + 1) * W) P) sizes jets"
  have W: "0 < W" using assms(4) by simp
  have len: "length jets = sum_list sizes" using assms(1) sizes by simp
  have t: "c mod W < W" using W by simp
  have c: "c = q * W + c mod W" by (simp add: q_def)
  have lenj: "length dj = P" unfolding dj_def using len sizes by simp
  have a: "map jet_a dj = map jet_a jets"
    unfolding dj_def using len by (rule set_derivatives_values)
  have seed: "\<And>c'. c' < P \<Longrightarrow> jet_v (dj ! c') ! (c mod W) = (if c' = c then 1 else 0)"
  proof -
    fix c' assume c': "c' < P"
    have "jet_v (dj ! c') = derivative_seed W (q * W) (min ((q + 1) * W) P) c'"
      unfolding dj_def using len c' sizes by (simp add: set_derivatives_nth)
    also have "\<dots> ! (c mod W) = (if c' = q * W + c mod W then 1 else 0)"
      using t c' by (rule section_seed)
    finally show "jet_v (dj ! c') ! (c mod W) = (if c' = c then 1 else 0)"
      by (simp only: c[symmetric])
  qed
  have "jet_v (dual_number_residuals f f' W dj n ! k) ! (c mod W)
          = sum_list (map (\<lambda>c'. f' (map jet_a dj) k c' * jet_v (dj ! c') ! (c mod W))
                          [0..<length dj])"
    using assms(3) t by (rule dual_number_residuals_nth)
  also have "\<dots> = sum_list (map (\<lambda>c'. f' (map jet_a jets) k c' * (if c' = c then 1 else 0)) [0..<P])"
    unfolding lenj a by (rule arg_cong[where f = sum_list], rule map_cong) (simp_all add: seed)
  also have "\<dots> = f' (map jet_a jets) k c"
    using assms(2) by (rule sum_list_single)
  finally show ?thesis by (simp only: dj_def q_def)
qed

lemma dual_call:
  assumes "functor_m cf = dual_number_block_functor succeeds f f'"
      and "length jets = sum_list sizes"
  shows "block_jet_call (functor_m cf) W (blocks_of sizes jets) out
           = (succeeds (map jet_a jets), dual_number_residuals f f' W jets (length out))"
  using assms by (simp add: dual_number_block_functor_def concat_blocks_of)

lemma dual_pass_body:
  assumes "functor_m cf = dual_number_block_functor succeeds f f'"
      and "length (input_jets st) = sum_list (parameter_block_sizes cf)"
  shows "fst (pass_body cf W N q st) = succeeds (map jet_a (input_jets st))"
    and "output_jets (snd (pass_body cf W N q st))
           = dual_number_residuals f f' W
               (set_derivatives W (q * W) (min ((q + 1) * W) (sum_list (parameter_block_sizes cf)))
                  (parameter_block_sizes cf) (input_jets st))
               (length (output_jets st))"
    and "\<not> succeeds (map jet_a (input_jets st)) \<Longrightarrow>
           jacobians_buf (snd (pass_body cf W N q st)) = jacobians_buf st"
proof -
  let ?jets = "set_derivatives W (q * W) (min ((q + 1) * W) (sum_list (parameter_block_sizes cf)))
                  (parameter_block_sizes cf) (input_jets st)"
  have len: "length ?jets = sum_list (parameter_block_sizes cf)"
    using assms(2) by (rule length_set_derivatives)
  have a: "map jet_a ?jets = map jet_a (input_jets st)"
    using assms(2) by (rule set_derivatives_values)
  note call = dual_call[OF assms(1) len, of W "output_jets st", unfolded a]
  obtain ok st' where b: "pass_body cf W N q st = (ok, st')"
    by (cases "pass_body cf W N q st")
  have "ok = succeeds (map jet_a (input_jets st)) \<and>
        output_jets st' = dual_number_residuals f f' W ?jets (length (output_jets st)) \<and>
        (\<not> ok \<longrightarrow> jacobians_buf st' = jacobians_buf st)"
  proof (cases ok)
    case True
    with b have "pass_body cf W N q st = (True, st')" by simp
    from pass_body_True[OF this] call show ?thesis using True by auto
  next
    case False
    with b have "pass_body cf W N q st = (False, st')" by simp
    from pass_body_False[OF this] call show ?thesis using False by auto
  qed
  then show "fst (pass_body cf W N q st) = succeeds (map jet_a (input_jets st))"
    and "output_jets (snd (pass_body cf W N q st))
           = dual_number_residuals f f' W ?jets (length (output_jets st))"
    and "\<not> succeeds (map jet_a (input_jets st)) \<Longrightarrow>
           jacobians_buf (snd (pass_body cf W N q st)) = jacobians_buf st"
    by (simp_all add: b)
qed

lemma dual_passes:
  assumes F: "functor_m cf = dual_number_block_functor succeeds f f'"
      and len: "length (input_jets st0) = sum_list (parameter_block_sizes cf)"
      and calls: "functor_calls st0 = []"
      and out: "length (output_jets st0) = num_residuals cf"
      and ok: "succeeds (map jet_a (input_jets st0))"
  shows "\<exists>st. passes cf W N [0..<n] st0 = (True, st) \<and>
              length (output_jets st) = num_residuals cf \<and>
              (\<forall>q<n. snd (snd (functor_calls st ! q))
                        = dual_number_residuals f f' W
                            (set_derivatives W (q * W)
                               (min ((q + 1) * W) (sum_list (parameter_block_sizes cf)))
                               (parameter_block_sizes cf) (input_jets st0))
                            (num_residuals cf))"
proof (induction n)
  case 0
  show ?case using out by simp
next
  case (Suc n)
  then obtain st1 where p: "passes cf W N [0..<n] st0 = (True, st1)"
    and o1: "length (output_jets st1) = num_residuals cf"
    and c1: "\<forall>q<n. snd (snd (functor_calls st1 ! q))
                        = dual_number_residuals f f' W
                            (set_derivatives W (q * W)
                               (min ((q + 1) * W) (sum_list (parameter_block_sizes cf)))
                               (parameter_block_sizes cf) (input_jets st0))
                            (num_residuals cf)"
    by blast
  from passes_inputs[OF p len]
  have len1: "length (input_jets st1) = sum_list (parameter_block_sizes cf)"
    and a1: "map jet_a (input_jets st1) = map jet_a (input_jets st0)"
    and d1: "\<And>s e. set_derivatives W s e (parameter_block_sizes cf) (input_jets st1)
                = set_derivatives W s e (parameter_block_sizes cf) (input_jets st0)"
    by simp_all
  obtain st where b: "pass_body cf W N n st1 = (True, st)"
    using dual_pass_body(1)[OF F len1, of W N n] ok a1
    by (cases "pass_body cf W N n st1") simp
  have o: "output_jets st
             = dual_number_residuals f f' W
                 (set_derivatives W (n * W) (min ((n + 1) * W) (sum_list (parameter_block_sizes cf)))
                    (parameter_block_sizes cf) (input_jets st0))
                 (num_residuals cf)"
    using dual_pass_body(2)[OF F len1, of W N n] b by (simp only: snd_conv d1 o1)
  have pn: "passes cf W N [0..<Suc n] st0 = (True, st)"
    by (simp only: passes_Suc p b prod.case bool.case)
  have len_calls: "length (functor_calls st1) = n"
    using passes_calls[OF p len calls] by simp
  from pass_body_True[OF b] obtain jets out' where
    c: "functor_calls st = functor_calls st1 @ [(jets, True, out')]" and oo: "output_jets st = out'"
    by auto
  have "\<forall>q<Suc n. snd (snd (functor_calls st ! q))
                        = dual_number_residuals f f' W
                            (set_derivatives W (q * W)
                               (min ((q + 1) * W) (sum_list (parameter_block_sizes cf)))
                               (parameter_block_sizes cf) (input_jets st0))
                            (num_residuals cf)"
  proof (intro allI impI)
    fix q assume "q < Suc n"
    then consider "q < n" | "q = n" by (auto simp add: less_Suc_eq)
    then show "snd (snd (functor_calls st ! q))
                        = dual_number_residuals f f' W
                            (set_derivatives W (q * W)
                               (min ((q + 1) * W) (sum_list (parameter_block_sizes cf)))
                               (parameter_block_sizes cf) (input_jets st0))
                            (num_residuals cf)"
    proof cases
      case 1
      then show ?thesis using c1 by (simp add: c nth_append len_calls)
    next
      case 2
      then show ?thesis using o oo by (simp add: c nth_append len_calls)
    qed
  qed
  moreover have "length (output_jets st) = num_residuals cf"
    by (simp only: o length_dual_number_residuals)
  ultimately show ?case using pn by blast
qed

lemma dual_passes_fail:
  assumes F: "functor_m cf = dual_number_block_functor succeeds f f'"
      and len: "length (input_jets st0) = sum_list (parameter_block_sizes cf)"
      and ok: "\<not> succeeds (map jet_a (input_jets st0))"
      and N: "0 < N"
  shows "fst (passes cf W N [0..<N] st0) = False \<and>
         jacobians_buf (snd (passes cf W N [0..<N] st0)) = jacobians_buf st0"
proof -
  obtain st' where b: "pass_body cf W N 0 st0 = (False, st')"
    using dual_pass_body(1)[OF F len, of W N 0] ok
    by (cases "pass_body cf W N 0 st0") simp
  have j: "jacobians_buf st' = jacobians_buf st0"
    using dual_pass_body(3)[OF F len ok, of W N 0] b by simp
  have "[0..<N] = 0 # [Suc 0..<N]" using N by (rule upt_conv_Cons)
  then have "passes cf W N [0..<N] st0 = (False, st')"
    by (simp only: passes.simps b prod.case bool.case)
  then show ?thesis using j by simp
qed

lemma scratch_values:
  "map jet_a (input_jets (scratch cf W parameters residuals jacobians))
     = map (\<lambda>(i, j, c). parameters ! i ! j) (parameter_cursors (parameter_block_sizes cf))"
  by (simp add: scratch_def split_beta comp_def)

lemma dual_Evaluate:
  assumes F: "functor_m cf = dual_number_block_functor succeeds f f'"
      and R: "0 < num_residuals cf"
      and W: "1 \<le> W"
      and P: "1 \<le> sum_list (parameter_block_sizes cf)"
  shows "\<exists>E J. Evaluate cf W parameters residuals (Some jacobians) = Some E \<and>
           returned E = succeeds (map (\<lambda>(i, j, c). parameters ! i ! j)
                                    (parameter_cursors (parameter_block_sizes cf))) \<and>
           jacobians_out E = Some J \<and> length J = length jacobians \<and>
           (\<forall>i. length (J ! i) = length (jacobians ! i)) \<and>
           (succeeds (map (\<lambda>(i, j, c). parameters ! i ! j)
                        (parameter_cursors (parameter_block_sizes cf))) \<longrightarrow>
              (\<forall>i j c k. (i, j, c) \<in> set (parameter_cursors (parameter_block_sizes cf)) \<longrightarrow>
                 c < num_strides_of (sum_list (parameter_block_sizes cf)) W * W \<longrightarrow>
                 k < num_residuals cf \<longrightarrow> i < length jacobians \<longrightarrow>
                 k * parameter_block_sizes cf ! i + j < length (jacobians ! i) \<longrightarrow>
                 J ! i ! (k * parameter_block_sizes cf ! i + j)
                   = f' (map (\<lambda>(i, j, c). parameters ! i ! j)
                          (parameter_cursors (parameter_block_sizes cf))) k c)) \<and>
           (\<forall>i off.
              (succeeds (map (\<lambda>(i, j, c). parameters ! i ! j)
                           (parameter_cursors (parameter_block_sizes cf))) \<longrightarrow>
                 (\<forall>j c k. (i, j, c) \<in> set (parameter_cursors (parameter_block_sizes cf)) \<longrightarrow>
                    c < num_strides_of (sum_list (parameter_block_sizes cf)) W * W \<longrightarrow>
                    k < num_residuals cf \<longrightarrow> off \<noteq> k * parameter_block_sizes cf ! i + j)) \<longrightarrow>
              J ! i ! off = jacobians ! i ! off)"
proof -
  let ?sizes = "parameter_block_sizes cf"
  let ?P = "sum_list ?sizes"
  let ?N = "num_strides_of ?P W"
  let ?st0 = "scratch cf W parameters residuals jacobians"
  let ?a = "map (\<lambda>(i, j, c). parameters ! i ! j) (parameter_cursors ?sizes)"
  have Wp: "0 < W" using W by simp
  have a: "map jet_a (input_jets ?st0) = ?a" by (rule scratch_values)
  have N: "0 < ?N"
    using Wp P by (rule num_strides_of_pos)
  show ?thesis
  proof (cases "succeeds ?a")
    case True
    then have ok: "succeeds (map jet_a (input_jets ?st0))" by (simp add: a)
    from dual_passes[OF F scratch_fields(1) scratch_fields(2) scratch_fields(5) ok, of W ?N ?N]
    obtain st where p: "passes cf W ?N [0..<?N] ?st0 = (True, st)"
      and outs: "\<And>q. q < ?N \<Longrightarrow> snd (snd (functor_calls st ! q))
                        = dual_number_residuals f f' W
                            (set_derivatives W (q * W) (min ((q + 1) * W) ?P) ?sizes (input_jets ?st0))
                            (num_residuals cf)"
      by blast
    let ?E = "\<lparr>returned = True, residuals_out = residuals_buf st,
                jacobians_out = Some (jacobians_buf st), calls = functor_calls st\<rparr>"
    have E: "Evaluate cf W parameters residuals (Some jacobians) = Some ?E"
      using R p by (rule Evaluate_jacobians)
    have ret: "returned ?E = succeeds ?a" using True by simp
    have lens: "length (jacobians_buf st) = length jacobians"
      "\<forall>i. length (jacobians_buf st ! i) = length (jacobians ! i)"
      using passes_jacobians_length[OF p scratch_fields(1) scratch_fields(2) W] by simp_all
    have written: "\<forall>i j c k. (i, j, c) \<in> set (parameter_cursors ?sizes) \<longrightarrow>
                 c < ?N * W \<longrightarrow>
                 k < num_residuals cf \<longrightarrow> i < length jacobians \<longrightarrow>
                 k * ?sizes ! i + j < length (jacobians ! i) \<longrightarrow>
                 jacobians_buf st ! i ! (k * ?sizes ! i + j) = f' ?a k c"
    proof (intro allI impI)
      fix i j c k
      assume m: "(i, j, c) \<in> set (parameter_cursors ?sizes)" and cN: "c < ?N * W"
        and k: "k < num_residuals cf"
        and i: "i < length jacobians" and r: "k * ?sizes ! i + j < length (jacobians ! i)"
      have cP: "c < ?P" using m by (rule parameter_cursors_bound)
      have q: "c div W < ?N" using cN Wp by (simp add: less_mult_imp_div_less)
      have "jacobians_buf st ! i ! (k * ?sizes ! i + j)
              = jet_v (snd (snd (functor_calls st ! (c div W))) ! k) ! (c mod W)"
        using p scratch_fields(1) scratch_fields(2) W m cN k
        by (rule passes_jacobians_written) (simp_all add: i r)
      also have "\<dots> = jet_v (dual_number_residuals f f' W
                            (set_derivatives W (c div W * W) (min ((c div W + 1) * W) ?P) ?sizes
                               (input_jets ?st0))
                            (num_residuals cf) ! k) ! (c mod W)"
        by (simp only: outs[OF q])
      also have "\<dots> = f' (map jet_a (input_jets ?st0)) k c"
        using scratch_fields(1) cP k W refl by (rule dual_number_column)
      finally show "jacobians_buf st ! i ! (k * ?sizes ! i + j) = f' ?a k c"
        by (simp only: a)
    qed
    have untouched: "\<forall>i off.
              (succeeds ?a \<longrightarrow>
                 (\<forall>j c k. (i, j, c) \<in> set (parameter_cursors ?sizes) \<longrightarrow> c < ?N * W \<longrightarrow>
                    k < num_residuals cf \<longrightarrow> off \<noteq> k * ?sizes ! i + j)) \<longrightarrow>
              jacobians_buf st ! i ! off = jacobians ! i ! off"
    proof (intro allI impI)
      fix i off
      assume "succeeds ?a \<longrightarrow>
                 (\<forall>j c k. (i, j, c) \<in> set (parameter_cursors ?sizes) \<longrightarrow> c < ?N * W \<longrightarrow>
                    k < num_residuals cf \<longrightarrow> off \<noteq> k * ?sizes ! i + j)"
      with True have no: "\<forall>j c k. (i, j, c) \<in> set (parameter_cursors ?sizes) \<longrightarrow> c < ?N * W \<longrightarrow>
                    k < num_residuals cf \<longrightarrow> off \<noteq> k * ?sizes ! i + j"
        by blast
      have "jacobians_buf st ! i ! off = jacobians_buf ?st0 ! i ! off"
        using p scratch_fields(1) scratch_fields(2) W
      proof (rule passes_jacobians_untouched)
        fix j c k
        assume "(i, j, c) \<in> set (parameter_cursors ?sizes)" "c < ?N * W" "k < num_residuals cf"
        then show "off \<noteq> k * ?sizes ! i + j" using no by blast
      qed
      then show "jacobians_buf st ! i ! off = jacobians ! i ! off" by simp
    qed
    have "jacobians_out ?E = Some (jacobians_buf st)" by simp
    then show ?thesis using E ret lens written untouched by blast
  next
    case False
    then have ok: "\<not> succeeds (map jet_a (input_jets ?st0))" by (simp add: a)
    from dual_passes_fail[OF F scratch_fields(1) ok N, of W]
    have f: "fst (passes cf W ?N [0..<?N] ?st0) = False"
      and j: "jacobians_buf (snd (passes cf W ?N [0..<?N] ?st0)) = jacobians"
      by simp_all
    obtain st where p: "passes cf W ?N [0..<?N] ?st0 = (False, st)"
      using f by (cases "passes cf W ?N [0..<?N] ?st0") simp
    let ?E = "\<lparr>returned = False, residuals_out = residuals_buf st,
                jacobians_out = Some (jacobians_buf st), calls = functor_calls st\<rparr>"
    have E: "Evaluate cf W parameters residuals (Some jacobians) = Some ?E"
      using R p by (rule Evaluate_jacobians)
    have ret: "returned ?E = succeeds ?a" using False by simp
    have J: "jacobians_buf st = jacobians" using j p by simp
    have "jacobians_out ?E = Some jacobians" by (simp add: J)
    then show ?thesis using E ret False by blast
  qed
qed

text \<open>Up to \<open>2 ^ 24\<close> parameters the jacobian buffers do not depend on \<open>Stride\<close>: for a
  functor written against the dual-number engine, every parameter block layout with
  \<open>1 \<le> P \<le> 2 ^ 24\<close> parameters in all and every \<open>Stride \<ge> 1\<close>, \<open>Evaluate\<close> leaves the
  buffers that it leaves with the width \<open>P\<close>.\<close>

lemma strides_agree_up_to_single_precision:
  assumes "1 \<le> sum_list sizes" and "sum_list sizes \<le> 2 ^ 24" and "1 \<le> Stride"
  shows "map_option jacobians_out
           (Evaluate \<lparr>functor_m = dual_number_block_functor succeeds f f',
                      parameter_block_sizes = sizes, num_residuals = n\<rparr>
              Stride parameters residuals (Some jacobians))
         = map_option jacobians_out
           (Evaluate \<lparr>functor_m = dual_number_block_functor succeeds f f',
                      parameter_block_sizes = sizes, num_residuals = n\<rparr>
              (sum_list sizes) parameters residuals (Some jacobians))"
proof -
  let ?cf = "\<lparr>functor_m = dual_number_block_functor succeeds f f',
              parameter_block_sizes = sizes, num_residuals = n\<rparr>"
  let ?a = "map (\<lambda>(i, j, c). parameters ! i ! j) (parameter_cursors sizes)"
  show ?thesis
  proof (cases "0 < n")
    case False
    then show ?thesis by (simp add: Evaluate_def)
  next
    case True
    have F: "functor_m ?cf = dual_number_block_functor succeeds f f'" by simp
    have R: "0 < num_residuals ?cf" using True by simp
    have P: "1 \<le> sum_list (parameter_block_sizes ?cf)" using assms(1) by simp
    have S: "0 < Stride" using assms(3) by simp
    have P0: "0 < sum_list sizes" using assms(1) by simp
    have c1: "c < num_strides_of (sum_list sizes) Stride * Stride"
      if "(i, j, c) \<in> set (parameter_cursors sizes)" for i j c
    proof -
      have "c < sum_list sizes" using that by (rule parameter_cursors_bound)
      then show ?thesis using strides_cover[OF S assms(2)] by linarith
    qed
    have c2: "c < num_strides_of (sum_list sizes) (sum_list sizes) * sum_list sizes"
      if "(i, j, c) \<in> set (parameter_cursors sizes)" for i j c
    proof -
      have "c < sum_list sizes" using that by (rule parameter_cursors_bound)
      then show ?thesis using strides_cover[OF P0 assms(2)] by linarith
    qed
    from dual_Evaluate[OF F R assms(3) P, of parameters residuals jacobians]
    obtain E1 J1 where e1: "Evaluate ?cf Stride parameters residuals (Some jacobians) = Some E1"
      and j1: "jacobians_out E1 = Some J1" and l1: "length J1 = length jacobians"
      and l1': "\<And>i. length (J1 ! i) = length (jacobians ! i)"
      and w1: "\<And>i j c k. succeeds ?a \<Longrightarrow> (i, j, c) \<in> set (parameter_cursors sizes) \<Longrightarrow>
                 c < num_strides_of (sum_list sizes) Stride * Stride \<Longrightarrow>
                 k < n \<Longrightarrow> i < length jacobians \<Longrightarrow> k * sizes ! i + j < length (jacobians ! i) \<Longrightarrow>
                 J1 ! i ! (k * sizes ! i + j) = f' ?a k c"
      and u1: "\<And>i off. (succeeds ?a \<longrightarrow>
                 (\<forall>j c k. (i, j, c) \<in> set (parameter_cursors sizes) \<longrightarrow>
                    c < num_strides_of (sum_list sizes) Stride * Stride \<longrightarrow>
                    k < n \<longrightarrow> off \<noteq> k * sizes ! i + j)) \<Longrightarrow>
              J1 ! i ! off = jacobians ! i ! off"
      by (simp only: DynamicAutoDiffCostFunction.simps) blast
    from dual_Evaluate[OF F R P P, of parameters residuals jacobians]
    obtain E2 J2 where e2: "Evaluate ?cf (sum_list sizes) parameters residuals (Some jacobians) = Some E2"
      and j2: "jacobians_out E2 = Some J2" and l2: "length J2 = length jacobians"
      and l2': "\<And>i. length (J2 ! i) = length (jacobians ! i)"
      and w2: "\<And>i j c k. succeeds ?a \<Longrightarrow> (i, j, c) \<in> set (parameter_cursors sizes) \<Longrightarrow>
                 c < num_strides_of (sum_list sizes) (sum_list sizes) * sum_list sizes \<Longrightarrow>
                 k < n \<Longrightarrow> i < length jacobians \<Longrightarrow> k * sizes ! i + j < length (jacobians ! i) \<Longrightarrow>
                 J2 ! i ! (k * sizes ! i + j) = f' ?a k c"
      and u2: "\<And>i off. (succeeds ?a \<longrightarrow>
                 (\<forall>j c k. (i, j, c) \<in> set (parameter_cursors sizes) \<longrightarrow>
                    c < num_strides_of (sum_list sizes) (sum_list sizes) * sum_list sizes \<longrightarrow>
                    k < n \<longrightarrow> off \<noteq> k * sizes ! i + j)) \<Longrightarrow>
              J2 ! i ! off = jacobians ! i ! off"
      by (simp only: DynamicAutoDiffCostFunction.simps) blast
    have "J1 = J2"
    proof (rule nth_equalityI)
      show "length J1 = length J2" by (simp add: l1 l2)
    next
      fix i assume "i < length J1"
      then have i: "i < length jacobians" by (simp add: l1)
      show "J1 ! i = J2 ! i"
      proof (rule nth_equalityI)
        show "length (J1 ! i) = length (J2 ! i)" by (simp add: l1' l2')
      next
        fix off assume "off < length (J1 ! i)"
        then have off: "off < length (jacobians ! i)" by (simp add: l1')
        show "J1 ! i ! off = J2 ! i ! off"
        proof (cases "succeeds ?a \<and> (\<exists>j c k. (i, j, c) \<in> set (parameter_cursors sizes) \<and>
                                          k < n \<and> off = k * sizes ! i + j)")
          case True
          then obtain j c k where ok: "succeeds ?a"
            and m: "(i, j, c) \<in> set (parameter_cursors sizes)" and k: "k < n"
            and o: "off = k * sizes ! i + j"
            by blast
          have r: "k * sizes ! i + j < length (jacobians ! i)" using off o by simp
          show ?thesis
            unfolding o using w1[OF ok m c1[OF m] k i r] w2[OF ok m c2[OF m] k i r] by simp
        next
          case False
          then have no1: "succeeds ?a \<longrightarrow>
                 (\<forall>j c k. (i, j, c) \<in> set (parameter_cursors sizes) \<longrightarrow>
                    c < num_strides_of (sum_list sizes) Stride * Stride \<longrightarrow>
                    k < n \<longrightarrow> off \<noteq> k * sizes ! i + j)"
            by blast
          from False have no2: "succeeds ?a \<longrightarrow>
                 (\<forall>j c k. (i, j, c) \<in> set (parameter_cursors sizes) \<longrightarrow>
                    c < num_strides_of (sum_list sizes) (sum_list sizes) * sum_list sizes \<longrightarrow>
                    k < n \<longrightarrow> off \<noteq> k * sizes ! i + j)"
            by blast
          show ?thesis using u1[OF no1] u2[OF no2] by simp
        qed
      qed
    qed
    then show ?thesis by (simp add: e1 e2 j1 j2)
  qed
qed

text \<open>A cost function with a single parameter block: a column that no pass reaches
  keeps what the caller's buffer held, and a column that a pass reaches receives the
  derivative.\<close>

lemma jacobian_entry_cong:
  assumes "map_option jacobians_out E = map_option jacobians_out E'"
  shows "jacobian_entry E i off = jacobian_entry E' i off"
  using assms by (cases E; cases E') (simp_all add: jacobian_entry_def)

lemma single_block_cursors:
  "(i, j, c) \<in> set (parameter_cursors [P]) \<longleftrightarrow> i = 0 \<and> j = c \<and> c < P"
  by (auto simp add: parameter_cursors_def)

lemma single_block_column:
  assumes F: "functor_m cf = dual_number_block_functor (\<lambda>p. True) f f'"
      and R: "0 < num_residuals cf"
      and W: "1 \<le> W"
      and sizes: "parameter_block_sizes cf = [P]"
      and c: "c < P"
      and J: "jacobians = [row]" and row: "c < length row"
  shows "jacobian_entry (Evaluate cf W parameters residuals (Some jacobians)) 0 c
           = Some (if c < num_strides_of P W * W
                   then f' (map (\<lambda>(i, j, c). parameters ! i ! j) (parameter_cursors [P])) 0 c
                   else row ! c)"
    and "map_option returned (Evaluate cf W parameters residuals (Some jacobians)) = Some True"
proof -
  let ?a = "map (\<lambda>(i, j, c). parameters ! i ! j) (parameter_cursors [P])"
  let ?N = "num_strides_of P W"
  have P: "1 \<le> sum_list (parameter_block_sizes cf)" using c by (simp add: sizes)
  from dual_Evaluate[OF F R W P, of parameters residuals jacobians]
  obtain E Jo where e: "Evaluate cf W parameters residuals (Some jacobians) = Some E"
    and r: "returned E"
    and j: "jacobians_out E = Some Jo"
    and w: "\<And>i j c k. (i, j, c) \<in> set (parameter_cursors [P]) \<Longrightarrow>
                 c < ?N * W \<Longrightarrow> k < num_residuals cf \<Longrightarrow> i < length jacobians \<Longrightarrow>
                 k * [P] ! i + j < length (jacobians ! i) \<Longrightarrow>
                 Jo ! i ! (k * [P] ! i + j) = f' ?a k c"
    and u: "\<And>i off. (\<forall>j c k. (i, j, c) \<in> set (parameter_cursors [P]) \<longrightarrow>
                    c < ?N * W \<longrightarrow> k < num_residuals cf \<longrightarrow> off \<noteq> k * [P] ! i + j) \<Longrightarrow>
              Jo ! i ! off = jacobians ! i ! off"
    by (simp only: sizes sum_list.Cons sum_list.Nil add_0_right simp_thms) blast
  show "map_option returned (Evaluate cf W parameters residuals (Some jacobians)) = Some True"
    using r by (simp add: e)
  have "Jo ! 0 ! c = (if c < ?N * W then f' ?a 0 c else row ! c)"
  proof (cases "c < ?N * W")
    case True
    have "Jo ! 0 ! (0 * [P] ! 0 + c) = f' ?a 0 c"
      using True R by (intro w) (simp_all add: single_block_cursors c J row)
    then show ?thesis using True by simp
  next
    case False
    have "Jo ! 0 ! c = jacobians ! 0 ! c"
    proof (rule u, intro allI impI)
      fix j c' k
      assume "(0, j, c') \<in> set (parameter_cursors [P])" and "c' < ?N * W"
      then have "j < c" "j < P" using False by (simp_all add: single_block_cursors)
      then show "c \<noteq> k * [P] ! 0 + j" using c by (cases k) simp_all
    qed
    then show ?thesis using False by (simp add: J)
  qed
  then show "jacobian_entry (Evaluate cf W parameters residuals (Some jacobians)) 0 c
           = Some (if c < ?N * W then f' ?a 0 c else row ! c)"
    by (simp add: jacobian_entry_def e j)
qed

subsection \<open>The concrete inputs, evaluated\<close>

lemmas float_defs = num_strides_of_def to_float_def exponent_def round_half_even_def
  bit_length.simps

lemma example_strides [simp]: "num_strides_of 3 2 = 2" "num_strides_of 3 3 = 1"
  by (simp_all add: float_defs)

lemmas example_strides_Suc = example_strides [unfolded numeral_2_eq_2 numeral_3_eq_3]

lemmas evaluate_defs = Evaluate_def example_strides_Suc scratch_def parameter_cursors_def
  pass_body_def set_derivatives_def derivative_seed_def dual_number_block_functor_def
  dual_number_residuals_def copy_jacobian_def write_jacobian_def copy_residuals_def
  example_residuals_def example_derivatives_def example_block_functor_def Let_def
  numeral_2_eq_2 numeral_3_eq_3

lemma example_run:
  "Evaluate example_cost_function 2 [[1, 2], [3]] [5, 5] (Some [[9, 9, 9, 9], [9, 9]])
     = Some example_evaluation"
  by (simp add: example_cost_function_def example_evaluation_def evaluate_defs)

lemma example_run_single_pass:
  "Evaluate example_cost_function 3 [[1, 2], [3]] [5, 5] (Some [[9, 9, 9, 9], [9, 9]])
     = Some \<lparr>returned = True, residuals_out = [17, 6],
             jacobians_out = Some [[1, 2, 0, 3], [4, 2]],
             calls =
               [([\<lparr>jet_a = 1, jet_v = [1, 0, 0]\<rparr>, \<lparr>jet_a = 2, jet_v = [0, 1, 0]\<rparr>,
                  \<lparr>jet_a = 3, jet_v = [0, 0, 1]\<rparr>], True,
                 [\<lparr>jet_a = 17, jet_v = [1, 2, 4]\<rparr>, \<lparr>jet_a = 6, jet_v = [0, 3, 2]\<rparr>])]\<rparr>"
  by (simp add: example_cost_function_def evaluate_defs)

lemma failing_run:
  "Evaluate failing_cost_function 2 [[1, 2], [3]] [5, 5] (Some [[9, 9, 9, 9], [9, 9]])
     = Some failing_evaluation"
  by (simp add: failing_cost_function_def failing_evaluation_def evaluate_defs)

lemma picky_run:
  "Evaluate picky_cost_function 2 [[1, 2], [3]] [5, 5] (Some [[9, 9, 9, 9], [9, 9]])
     = Some picky_evaluation"
  by (simp add: picky_cost_function_def picky_evaluation_def evaluate_defs)

lemma adapter_run:
  "adapter_call example_functor 2 3 (10 ^ 302) [1, 2, 3] [5, 5] (Some [9, 9, 9, 9, 9, 9])
     = (True, [17, 6], Some [1, 0, 2, 3, 4, 2])"
  by (simp add: adapter_call_def example_functor_def dual_number_functor_def
      dual_number_residuals_def seed_parameters_def impossible_residuals_def copy_out_def
      example_residuals_def example_derivatives_def Let_def numeral_2_eq_2 numeral_3_eq_3)

lemma adapter_jets:
  "jet_call example_functor (seed_parameters 3 [1, 2, 3]) (impossible_residuals 2 3 (10 ^ 302))
     = (True, [\<lparr>jet_a = 17, jet_v = [1, 2, 4]\<rparr>, \<lparr>jet_a = 6, jet_v = [0, 3, 2]\<rparr>])"
  by (simp add: example_functor_def dual_number_functor_def
      dual_number_residuals_def seed_parameters_def impossible_residuals_def
      example_residuals_def example_derivatives_def numeral_2_eq_2 numeral_3_eq_3)

section \<open>Claims about TinySolver\<close>

text \<open>
  C1: a cost function that returns false should abort the evaluation and make \<open>Solve\<close>
  report \<open>FAILED_TO_EVALUATE_COST_FUNCTION\<close>. The source drops the flag at both call
  sites. On the cost function \<open>failing\<close>, whose evaluations all return false and write
  nothing, \<open>Solve\<close> reads the untouched buffers and reports \<open>GRADIENT_TOO_SMALL\<close>. On
  \<open>failing_trial\<close>, whose residual-only evaluation returns false, the first iteration
  computes \<open>rho\<close> from the untouched buffer, accepts the step and moves \<open>x\<close>.
\<close>

theorem failed_evaluation_goes_unreported:
  "\<not> fst (call_jacobian failing [1] (error_m solver_1x1) (coeffs (jacobian_m solver_1x1))) \<and>
   fst (Solve solve_1x1 isExactly failing [1] solver_1x1) =
     \<lparr>error_magnitude = 0, gradient_magnitude = 0, num_failed_linear_solves = 7,
      iterations = 0, status = GRADIENT_TOO_SMALL\<rparr> \<and>
   \<not> fst (call_null failing_trial [1] [0]) \<and>
   f_x_new_m (trial failing_trial (linear_step solve_1x1 (entry failing_trial [0] solver_1x1)))
     = f_x_new_m solver_1x1 \<and>
   accepted solve_1x1 isExactly failing_trial (entry failing_trial [0] solver_1x1) \<and>
   loc_x (snd (body solve_1x1 isExactly failing_trial (entry failing_trial [0] solver_1x1))) = [1] \<and>
   status (fst (Solve solve_1x1 isExactly failing_trial [0] solver_1x1))
     \<noteq> FAILED_TO_EVALUATE_COST_FUNCTION"
proof -
  have "f_x_new_m (trial failing_trial (linear_step solve_1x1 parabola_frame)) = [0]"
    by (simp add: trial_def Let_def failing_trial_def linear_step_parabola)
       (simp add: parabola_frame_def)
  moreover have "status (fst (Solve solve_1x1 isExactly failing_trial [0] solver_1x1))
     \<noteq> FAILED_TO_EVALUATE_COST_FUNCTION"
    using Solve_status[of solve_1x1 isExactly failing_trial "[0]" solver_1x1] by auto
  ultimately show ?thesis
    by (simp add: Solve_failing entry_failing_trial accepted_failing_trial x_failing_trial)
       (simp add: failing_def failing_trial_def solver_1x1_def)
qed




text \<open>
  C3: the caller's vector \<open>x\<close> changes only in an iteration whose step is accepted,
  that is, whose linear solve passed the check, whose step was not too small and whose
  \<open>rho\<close> is positive; it then becomes \<open>x + dx_\<close>. Every other iteration (failed linear
  solve, step too small, \<open>rho\<close> not positive) leaves \<open>x\<close> as it was, and so do the
  statements after the loop: a \<open>Solve\<close> none of whose iterations accepts a step returns
  with \<open>x\<close> unchanged.
\<close>

theorem x_changes_only_with_accepted_step:
  "(\<not> accepted linear_solver isApprox f t \<longrightarrow>
      loc_x (snd (body linear_solver isApprox f t)) = loc_x t) \<and>
   (accepted linear_solver isApprox f t \<longrightarrow>
      positive (rho (trial f (linear_step linear_solver t))) \<and>
      loc_x (snd (body linear_solver isApprox f t))
        = vec_add (loc_x t) (dx_m (linear_step linear_solver t))) \<and>
   ((\<forall>t \<in> set (iterations_of linear_solver isApprox f (entry f x0 s0)).
        \<not> accepted linear_solver isApprox f t) \<longrightarrow>
      fst (snd (Solve linear_solver isApprox f x0 s0)) = x0)"
proof (intro conjI impI)
  assume "\<not> accepted linear_solver isApprox f t"
  then show "loc_x (snd (body linear_solver isApprox f t)) = loc_x t"
    by (rule body_not_accepted_x)
next
  assume a: "accepted linear_solver isApprox f t"
  then show "positive (rho (trial f (linear_step linear_solver t)))"
    by (simp add: accepted_def)
  show "loc_x (snd (body linear_solver isApprox f t))
        = vec_add (loc_x t) (dx_m (linear_step linear_solver t))"
    by (simp add: body_accepted[OF a]) (simp add: trial_def Let_def split: prod.splits)
next
  assume "\<forall>t \<in> set (iterations_of linear_solver isApprox f (entry f x0 s0)).
        \<not> accepted linear_solver isApprox f t"
  then have "loc_x (loop linear_solver isApprox f (entry f x0 s0)) = loc_x (entry f x0 s0)"
    by (intro loop_not_accepted_x) blast
  then show "fst (snd (Solve linear_solver isApprox f x0 s0)) = x0"
    by (simp add: Solve_x)
qed

theorem x_changes_only_with_accepted_step_witness:
  "\<not> accepted solve_zero isExactly parabola (entry parabola [0] solver_1x1) \<and>
   loc_x (snd (body solve_zero isExactly parabola (entry parabola [0] solver_1x1))) = [0] \<and>
   accepted solve_1x1 isExactly parabola (entry parabola [0] solver_1x1) \<and>
   loc_x (snd (body solve_1x1 isExactly parabola (entry parabola [0] solver_1x1))) = [1] \<and>
   iterations_of solve_zero isExactly parabola (entry parabola [0] solver_1x1)
     = [parabola_frame, second_frame] \<and>
   \<not> accepted solve_zero isExactly parabola parabola_frame \<and>
   \<not> accepted solve_zero isExactly parabola second_frame \<and>
   fst (snd (Solve solve_zero isExactly parabola [0] solver_1x1)) = [0]"
proof -
  have n0: "\<not> accepted solve_zero isExactly parabola parabola_frame"
    by (simp add: accepted_def not_solved_zero)
  have n1: "\<not> accepted solve_zero isExactly parabola second_frame"
    by (simp add: accepted_def not_solved_zero_general second_frame_def parabola_frame_def)
  have a: "accepted solve_1x1 isExactly parabola (entry parabola [0] solver_1x1)"
    by (simp add: entry_parabola accepted_parabola)
  have all: "\<forall>t \<in> set (iterations_of solve_zero isExactly parabola (entry parabola [0] solver_1x1)).
      \<not> accepted solve_zero isExactly parabola t"
    by (simp add: entry_parabola iterations_zero n0 n1)
  have dx: "vec_add [0] (dx_m (linear_step solve_1x1 parabola_frame)) = [1]"
    by (simp add: linear_step_parabola) (simp add: parabola_frame_def eigen_defs)
  have x0: "loc_x parabola_frame = [0]"
    by (simp add: parabola_frame_def)
  show ?thesis
    using x_changes_only_with_accepted_step[of solve_zero isExactly parabola
            "entry parabola [0] solver_1x1" "[0]" solver_1x1]
          x_changes_only_with_accepted_step[of solve_1x1 isExactly parabola
            "entry parabola [0] solver_1x1" "[0]" solver_1x1]
          n0 n1 a all
    by (simp add: entry_parabola iterations_zero dx x0)
qed

text \<open>
  C6: \<open>Update\<close> evaluates the cost function at \<open>x\<close> with a jacobian buffer; with
  \<open>r\<close> and \<open>J\<close> the residuals and the jacobian that the call leaves, it stores
  \<open>error_ = -r\<close>, \<open>jtj_ = J\<^sup>T J\<close> and \<open>g_ = J\<^sup>T error_\<close>, and returns
  \<open>GRADIENT_TOO_SMALL\<close> exactly when \<open>max |g_i| < gradient_threshold\<close>, otherwise
  \<open>ERROR_TOO_SMALL\<close> exactly when \<open>\<parallel>error_\<parallel> < error_threshold\<close>, otherwise
  \<open>RUNNING\<close>: the gradient check comes first.
\<close>

theorem Update_normal_equations_and_status:
  assumes "call_jacobian f xp (error_m s) (coeffs (jacobian_m s)) = (ok, r, j)"
      and "0 < ncols (jacobian_m s)"
  shows "error_m (snd (Update f xp s)) = map uminus r \<and>
         jacobian_m (snd (Update f xp s)) = (jacobian_m s)\<lparr>coeffs := j\<rparr> \<and>
         nrows (jtj_m (snd (Update f xp s))) = ncols (jacobian_m s) \<and>
         ncols (jtj_m (snd (Update f xp s))) = ncols (jacobian_m s) \<and>
         (\<forall>p < ncols (jacobian_m s). \<forall>q < ncols (jacobian_m s).
            coeff (jtj_m (snd (Update f xp s))) p q
              = (\<Sum>k<nrows (jacobian_m s).
                   coeff ((jacobian_m s)\<lparr>coeffs := j\<rparr>) k p * coeff ((jacobian_m s)\<lparr>coeffs := j\<rparr>) k q)) \<and>
         length (g_m (snd (Update f xp s))) = ncols (jacobian_m s) \<and>
         (\<forall>p < ncols (jacobian_m s).
            g_m (snd (Update f xp s)) ! p
              = (\<Sum>k<nrows (jacobian_m s).
                   coeff ((jacobian_m s)\<lparr>coeffs := j\<rparr>) k p * error_m (snd (Update f xp s)) ! k)) \<and>
         fst (Update f xp s)
           = (if Max ((\<lambda>p. \<bar>g_m (snd (Update f xp s)) ! p\<bar>) ` {..<ncols (jacobian_m s)})
                   < gradient_threshold (params s)
              then GRADIENT_TOO_SMALL
              else if sqrt (\<Sum>k<length r. (error_m (snd (Update f xp s)) ! k)\<^sup>2)
                        < error_threshold (params s)
              then ERROR_TOO_SMALL
              else RUNNING)"
proof -
  let ?J = "(jacobian_m s)\<lparr>coeffs := j\<rparr>"
  let ?e = "map uminus r"
  let ?g = "transpose_times_vec ?J ?e"
  have fields:
    "error_m (snd (Update f xp s)) = ?e"
    "jacobian_m (snd (Update f xp s)) = ?J"
    "jtj_m (snd (Update f xp s)) = transpose_times ?J ?J"
    "g_m (snd (Update f xp s)) = ?g"
    using assms(1) by (simp_all add: Update_def Let_def)
  have st: "fst (Update f xp s)
      = (if maxCoeff (map abs ?g) < gradient_threshold (params s) then GRADIENT_TOO_SMALL
         else if norm_v ?e < error_threshold (params s) then ERROR_TOO_SMALL else RUNNING)"
    using assms(1) by (simp add: Update_def Let_def)
  have len: "length ?g = ncols (jacobian_m s)"
    by (simp add: transpose_times_vec_def)
  then have ne: "?g \<noteq> []" using assms(2) by auto
  have mx: "maxCoeff (map abs ?g) = Max ((\<lambda>p. \<bar>?g ! p\<bar>) ` {..<ncols (jacobian_m s)})"
    using maxCoeff_abs[OF ne] len by simp
  have nrm: "norm_v ?e = sqrt (\<Sum>k<length r. (?e ! k)\<^sup>2)"
    using norm_v_sum[of ?e] by simp
  have dims: "nrows (transpose_times ?J ?J) = ncols (jacobian_m s)"
    "ncols (transpose_times ?J ?J) = ncols (jacobian_m s)"
    by (simp_all add: transpose_times_def)
  have A: "\<forall>p < ncols (jacobian_m s). \<forall>q < ncols (jacobian_m s).
      coeff (transpose_times ?J ?J) p q = (\<Sum>k<nrows (jacobian_m s). coeff ?J k p * coeff ?J k q)"
    using coeff_transpose_times[of _ ?J _ ?J] by simp
  have G: "\<forall>p < ncols (jacobian_m s). ?g ! p = (\<Sum>k<nrows (jacobian_m s). coeff ?J k p * ?e ! k)"
    using transpose_times_vec_nth[of _ ?J ?e] by simp
  show ?thesis
    unfolding fields st mx nrm using dims A G len by blast
qed

theorem Update_normal_equations_and_status_witness:
  "call_jacobian parabola [0] (error_m solver_1x1) (coeffs (jacobian_m solver_1x1))
     = (True, [- 4], [1]) \<and>
   0 < ncols (jacobian_m solver_1x1) \<and>
   error_m (snd (Update parabola [0] solver_1x1)) = [4] \<and>
   coeff (jtj_m (snd (Update parabola [0] solver_1x1))) 0 0 = 1 \<and>
   g_m (snd (Update parabola [0] solver_1x1)) ! 0 = 4 \<and>
   fst (Update parabola [0] solver_1x1) = RUNNING"
proof -
  have c: "call_jacobian parabola [0] (error_m solver_1x1) (coeffs (jacobian_m solver_1x1))
     = (True, [- 4], [1])"
    by (simp add: parabola_def)
  have n: "0 < ncols (jacobian_m solver_1x1)"
    by (simp add: solver_1x1_def)
  have cf: "coeff ((jacobian_m solver_1x1)\<lparr>coeffs := [1]\<rparr>) 0 0 = 1"
    by (simp add: coeff_def solver_1x1_def)
  have dims: "ncols (jacobian_m solver_1x1) = 1" "nrows (jacobian_m solver_1x1) = 1"
    by (simp_all add: solver_1x1_def)
  have thr: "gradient_threshold (params solver_1x1) = 1 / 10 ^ 16"
    "error_threshold (params solver_1x1) = 1 / 10 ^ 16"
    by (simp_all add: solver_1x1_def default_SolverParameters_def)
  show ?thesis
    using Update_normal_equations_and_status[OF c n]
    by (simp add: c n cf dims thr lessThan_Suc)
qed

text \<open>
  C7: in an iteration whose damped linear solve fails the check
  \<open>(jtj_augmented_ * dx_).isApprox(g_)\<close>, the body counts one more failed linear solve
  (the counter is a 32-bit \<open>int\<close>, and \<open>+ 1\<close> is the addition of 32-bit words),
  multiplies \<open>u\<close> by \<open>v\<close>, doubles \<open>v\<close>, leaves \<open>x\<close> as it was and keeps the status
  \<open>RUNNING\<close>; the loop goes on with the next \<open>i\<close>, and \<open>Solve\<close> never reports
  \<open>FAILED_TO_SOLVER_LINEAR_SYSTEM\<close>.
\<close>

theorem failed_linear_solve_escalates_and_continues:
  assumes "loop_condition s" and "\<not> solved isApprox (linear_step linear_solver s)"
  shows "fst (body linear_solver isApprox f s) = Next \<and>
         num_failed_linear_solves (results (snd (body linear_solver isApprox f s)))
           = num_failed_linear_solves (results s) + 1 \<and>
         loc_u (snd (body linear_solver isApprox f s)) = loc_u s * loc_v s \<and>
         loc_v (snd (body linear_solver isApprox f s)) = loc_v s * 2 \<and>
         loc_x (snd (body linear_solver isApprox f s)) = loc_x s \<and>
         status (results (snd (body linear_solver isApprox f s))) = RUNNING \<and>
         loop linear_solver isApprox f s
           = loop linear_solver isApprox f
               ((snd (body linear_solver isApprox f s))\<lparr>loc_i := loc_i s + 1\<rparr>) \<and>
         status (fst (Solve linear_solver isApprox f x0 s0)) \<noteq> FAILED_TO_SOLVER_LINEAR_SYSTEM"
proof -
  let ?s' = "reject ((linear_step linear_solver s)\<lparr>results := (results s)
       \<lparr>num_failed_linear_solves := num_failed_linear_solves (results s) + 1\<rparr>\<rparr>)"
  have b: "body linear_solver isApprox f s = (Next, ?s')"
    using assms(2) by (rule body_failed)
  have running: "status (results s) = RUNNING"
    using assms(1) by (simp add: loop_condition_def)
  have continues: "loop linear_solver isApprox f s
           = loop linear_solver isApprox f
               ((snd (body linear_solver isApprox f s))\<lparr>loc_i := loc_i s + 1\<rparr>)"
    using loop_next[OF assms(1) b] by (simp add: b)
  have never: "status (fst (Solve linear_solver isApprox f x0 s0)) \<noteq> FAILED_TO_SOLVER_LINEAR_SYSTEM"
    using Solve_status[of linear_solver isApprox f x0 s0] by auto
  show ?thesis
    using continues never by (simp add: b running)
qed

theorem failed_linear_solve_witness:
  "loop_condition (entry parabola [0] solver_1x1) \<and>
   \<not> solved isExactly (linear_step solve_zero (entry parabola [0] solver_1x1)) \<and>
   num_failed_linear_solves (results (entry parabola [0] solver_1x1)) = 7 \<and>
   num_failed_linear_solves
     (results (snd (body solve_zero isExactly parabola (entry parabola [0] solver_1x1)))) = 8 \<and>
   loc_u (snd (body solve_zero isExactly parabola (entry parabola [0] solver_1x1))) = 6 \<and>
   loc_v (snd (body solve_zero isExactly parabola (entry parabola [0] solver_1x1))) = 4 \<and>
   loc_x (snd (body solve_zero isExactly parabola (entry parabola [0] solver_1x1))) = [0] \<and>
   status (results (snd (body solve_zero isExactly parabola (entry parabola [0] solver_1x1))))
     = RUNNING"
proof -
  have c: "loop_condition (entry parabola [0] solver_1x1)"
    by (simp add: entry_parabola loop_condition_parabola)
  have n: "\<not> solved isExactly (linear_step solve_zero (entry parabola [0] solver_1x1))"
    by (simp add: entry_parabola not_solved_zero)
  show ?thesis
    using c n failed_linear_solve_escalates_and_continues[OF c n, of parabola]
    by (simp add: entry_parabola) (simp add: parabola_frame_def)
qed

text \<open>
  C10: \<open>Solve\<close> never resets \<open>results.num_failed_linear_solves\<close>: the count it returns
  is the value the field had before the call, whatever it was, plus the number of
  iterations of this call whose linear solve failed. A second \<open>Solve\<close> on the same solver
  object therefore reports the failed solves of both calls on top of the initial value.
  The field is a 32-bit \<open>int\<close> and the sums are sums of 32-bit words: they wrap around,
  as the increments of the field do.
\<close>

theorem failed_solve_count_accumulates:
  "num_failed_linear_solves (fst (Solve linear_solver isApprox f x0 s))
     = num_failed_linear_solves (results s)
       + of_nat (failed_linear_solves linear_solver isApprox f (entry f x0 s)) \<and>
   num_failed_linear_solves
       (fst (Solve linear_solver isApprox f x1 (snd (snd (Solve linear_solver isApprox f x0 s)))))
     = num_failed_linear_solves (results s)
       + of_nat (failed_linear_solves linear_solver isApprox f (entry f x0 s))
       + of_nat (failed_linear_solves linear_solver isApprox f
                (entry f x1 (snd (snd (Solve linear_solver isApprox f x0 s)))))"
  by (simp add: Solve_num_failed Solve_solver_results)

section \<open>Claims about the adapter\<close>

text \<open>
  C8: when a jacobian is requested, \<open>operator()\<close> of the adapter seeds input jet \<open>i\<close>
  with the value \<open>parameters[i]\<close> and the \<open>i\<close>-th standard basis vector, for every
  \<open>i < kNumParameters\<close>, and calls the functor once on these jets. When the functor
  returns true, \<open>residuals[r]\<close> is the value part of output jet \<open>r\<close> and entry
  \<open>c * kNumResiduals + r\<close> of the jacobian buffer, row \<open>r\<close> and column \<open>c\<close> of the
  column-major matrix, is slot \<open>c\<close> of its derivative part; when it returns false the
  buffers are left alone. With a null jacobian pointer the functor is called on the
  scalars directly. The buffers have the sizes the caller owes:
  \<open>kNumResiduals\<close> and \<open>kNumResiduals * kNumParameters\<close>.
\<close>

theorem adapter_seeds_once_and_copies_out:
  assumes "length residuals = R" and "length jacobian = R * P"
  shows "length (seed_parameters P parameters) = P \<and>
         (\<forall>i<P. jet_a (seed_parameters P parameters ! i) = parameters ! i \<and>
                length (jet_v (seed_parameters P parameters ! i)) = P \<and>
                (\<forall>c<P. jet_v (seed_parameters P parameters ! i) ! c = (if c = i then 1 else 0))) \<and>
         (\<forall>out. jet_call cost_functor (seed_parameters P parameters) (impossible_residuals R P K)
                  = (True, out) \<longrightarrow>
            (\<exists>res jac.
               adapter_call cost_functor R P K parameters residuals (Some jacobian)
                 = (True, res, Some jac) \<and>
               length res = R \<and> length jac = R * P \<and>
               (\<forall>r<R. res ! r = jet_a (out ! r) \<and>
                      (\<forall>c<P. jac ! (c * R + r) = jet_v (out ! r) ! c)))) \<and>
         (\<forall>out. jet_call cost_functor (seed_parameters P parameters) (impossible_residuals R P K)
                  = (False, out) \<longrightarrow>
            adapter_call cost_functor R P K parameters residuals (Some jacobian)
              = (False, residuals, Some jacobian)) \<and>
         adapter_call cost_functor R P K parameters residuals None
           = (fst (scalar_call cost_functor parameters residuals),
              snd (scalar_call cost_functor parameters residuals), None)"
proof (intro conjI allI impI)
  show "length (seed_parameters P parameters) = P"
    by (simp add: seed_parameters_def)
next
  fix i assume "i < P"
  then show "jet_a (seed_parameters P parameters ! i) = parameters ! i"
    and "length (jet_v (seed_parameters P parameters ! i)) = P"
    by (simp_all add: seed_parameters_nth)
next
  fix i c assume "i < P" "c < P"
  then show "jet_v (seed_parameters P parameters ! i) ! c = (if c = i then 1 else 0)"
    by (simp add: seed_parameters_nth nth_list_update)
next
  fix out
  assume call: "jet_call cost_functor (seed_parameters P parameters) (impossible_residuals R P K)
                  = (True, out)"
  let ?res = "fold (\<lambda>r res. res[r := jet_a (out ! r)]) [0..<R] residuals"
  let ?jac = "fold (\<lambda>r jac. fold (\<lambda>c jac. jac[c * R + r := jet_v (out ! r) ! c]) [0..<P] jac)
                [0..<R] jacobian"
  have run: "adapter_call cost_functor R P K parameters residuals (Some jacobian)
               = (True, ?res, Some ?jac)"
    using call by (simp add: adapter_call_def Let_def copy_out_eq)
  have res: "\<forall>r<R. ?res ! r = jet_a (out ! r)"
    using assms(1) by (simp add: residual_write_nth)
  have jac: "\<forall>r<R. \<forall>c<P. ?jac ! (c * R + r) = jet_v (out ! r) ! c"
  proof (intro allI impI)
    fix r c assume r: "r < R" and c: "c < P"
    have "c * R + r < Suc c * R" using r by simp
    also have "\<dots> \<le> P * R" using c by (intro mult_le_mono1) simp
    finally have idx: "c * R + r < length jacobian" using assms(2) by (simp add: mult.commute)
    show "?jac ! (c * R + r) = jet_v (out ! r) ! c"
      using rows_write_nth[OF idx, of R R "\<lambda>r c. jet_v (out ! r) ! c" P] r c by simp
  qed
  show "\<exists>res jac.
          adapter_call cost_functor R P K parameters residuals (Some jacobian)
            = (True, res, Some jac) \<and>
          length res = R \<and> length jac = R * P \<and>
          (\<forall>r<R. res ! r = jet_a (out ! r) \<and> (\<forall>c<P. jac ! (c * R + r) = jet_v (out ! r) ! c))"
    using run res jac assms by (intro exI[of _ ?res] exI[of _ ?jac]) simp
next
  fix out
  assume "jet_call cost_functor (seed_parameters P parameters) (impossible_residuals R P K)
            = (False, out)"
  then show "adapter_call cost_functor R P K parameters residuals (Some jacobian)
               = (False, residuals, Some jacobian)"
    by (simp add: adapter_call_def Let_def)
next
  show "adapter_call cost_functor R P K parameters residuals None
          = (fst (scalar_call cost_functor parameters residuals),
             snd (scalar_call cost_functor parameters residuals), None)"
    by (simp add: adapter_call_def Let_def split: prod.splits)
qed

theorem adapter_seeds_once_and_copies_out_witness:
  "length [5, 5 :: real] = 2 \<and> length [9, 9, 9, 9, 9, 9 :: real] = 2 * 3 \<and>
   seed_parameters 3 [1, 2, 3]
     = [\<lparr>jet_a = 1, jet_v = [1, 0, 0]\<rparr>, \<lparr>jet_a = 2, jet_v = [0, 1, 0]\<rparr>,
        \<lparr>jet_a = 3, jet_v = [0, 0, 1]\<rparr>] \<and>
   jet_call example_functor (seed_parameters 3 [1, 2, 3]) (impossible_residuals 2 3 (10 ^ 302))
     = (True, [\<lparr>jet_a = 17, jet_v = [1, 2, 4]\<rparr>, \<lparr>jet_a = 6, jet_v = [0, 3, 2]\<rparr>]) \<and>
   adapter_call example_functor 2 3 (10 ^ 302) [1, 2, 3] [5, 5] (Some [9, 9, 9, 9, 9, 9])
     = (True, [17, 6], Some [1, 0, 2, 3, 4, 2])"
proof -
  have r: "length [5, 5 :: real] = 2" by simp
  have j: "length [9, 9, 9, 9, 9, 9 :: real] = 2 * 3" by simp
  have s: "seed_parameters 3 [1, 2, 3]
     = [\<lparr>jet_a = 1, jet_v = [1, 0, 0]\<rparr>, \<lparr>jet_a = 2, jet_v = [0, 1, 0]\<rparr>,
        \<lparr>jet_a = 3, jet_v = [0, 0, 1]\<rparr>]"
    by (simp add: seed_parameters_def numeral_3_eq_3)
  have "length (seed_parameters 3 [1, 2, 3]) = 3"
    by (rule conjunct1[OF adapter_seeds_once_and_copies_out[OF r j]])
  then show ?thesis
    using adapter_jets adapter_run r j s by simp
qed

section \<open>Claims about DynamicAutoDiffCostFunction\<close>

text \<open>
  C4: the jacobian that \<open>Evaluate\<close> writes with a width \<open>Stride\<close> should be the one that
  it writes with the width \<open>P\<close>, the number of parameters. The source computes the number
  of passes in single precision, \<open>int(ceil(num_parameters / float(Stride)))\<close>. On
  \<open>sum_cost_function\<close>, with one block of \<open>P = 16777217\<close> parameters, the conversion of
  \<open>P\<close> to \<open>float\<close> yields \<open>16777216\<close>. With \<open>Stride = 4\<close> the loop makes \<open>4194304\<close> passes,
  which cover the columns below \<open>16777216\<close>: \<open>Evaluate\<close> returns true and the last column
  of the jacobian keeps the 9 that the caller's buffer held. With \<open>Stride = 3\<close> the loop
  makes \<open>5592406\<close> passes, and with \<open>Stride = P\<close> a single one: both cover every column
  and write the derivative 1 there.
\<close>

theorem single_precision_stride_count_misses_a_column:
  "num_strides_of 16777217 4 = 4194304 \<and>
   num_strides_of 16777217 3 = 5592406 \<and>
   num_strides_of 16777217 16777217 = 1 \<and>
   map_option returned
     (Evaluate sum_cost_function 4 [replicate 16777217 0] [5] (Some [replicate 16777217 9]))
     = Some True \<and>
   jacobian_entry
     (Evaluate sum_cost_function 4 [replicate 16777217 0] [5] (Some [replicate 16777217 9]))
     0 16777216 = Some 9 \<and>
   map_option returned
     (Evaluate sum_cost_function 3 [replicate 16777217 0] [5] (Some [replicate 16777217 9]))
     = Some True \<and>
   jacobian_entry
     (Evaluate sum_cost_function 3 [replicate 16777217 0] [5] (Some [replicate 16777217 9]))
     0 16777216 = Some 1 \<and>
   map_option returned
     (Evaluate sum_cost_function 16777217 [replicate 16777217 0] [5]
        (Some [replicate 16777217 9]))
     = Some True \<and>
   jacobian_entry
     (Evaluate sum_cost_function 16777217 [replicate 16777217 0] [5]
        (Some [replicate 16777217 9]))
     0 16777216 = Some 1 \<and>
   map_option jacobians_out
     (Evaluate sum_cost_function 4 [replicate 16777217 0] [5] (Some [replicate 16777217 9]))
     \<noteq> map_option jacobians_out
         (Evaluate sum_cost_function 16777217 [replicate 16777217 0] [5]
            (Some [replicate 16777217 9])) \<and>
   map_option jacobians_out
     (Evaluate sum_cost_function 4 [replicate 16777217 0] [5] (Some [replicate 16777217 9]))
     \<noteq> map_option jacobians_out
         (Evaluate sum_cost_function 3 [replicate 16777217 0] [5]
            (Some [replicate 16777217 9]))"
proof -
  let ?E4 = "Evaluate sum_cost_function 4 [replicate 16777217 0] [5]
               (Some [replicate 16777217 9])"
  let ?E3 = "Evaluate sum_cost_function 3 [replicate 16777217 0] [5]
               (Some [replicate 16777217 9])"
  let ?EP = "Evaluate sum_cost_function 16777217 [replicate 16777217 0] [5]
               (Some [replicate 16777217 9])"
  have n4: "num_strides_of 16777217 4 = 4194304" by (simp add: float_defs)
  have n3: "num_strides_of 16777217 3 = 5592406" by (simp add: float_defs)
  have nP: "num_strides_of 16777217 16777217 = 1" by (simp add: float_defs)
  have F: "functor_m sum_cost_function
             = dual_number_block_functor (\<lambda>p. True) (\<lambda>p k. sum_list p) (\<lambda>p k c. 1)"
    and R: "0 < num_residuals sum_cost_function"
    and sizes: "parameter_block_sizes sum_cost_function = [16777217]"
    by (simp_all add: sum_cost_function_def)
  have c: "(16777216 :: nat) < 16777217" by simp
  have row: "16777216 < length (replicate 16777217 (9 :: real))" by simp
  have W4: "(1 :: nat) \<le> 4" and W3: "(1 :: nat) \<le> 3" and WP: "(1 :: nat) \<le> 16777217"
    by simp_all
  note a = single_block_column[OF F R W4 sizes c refl row, of "[replicate 16777217 0]" "[5]"]
  note t = single_block_column[OF F R W3 sizes c refl row, of "[replicate 16777217 0]" "[5]"]
  note b = single_block_column[OF F R WP sizes c refl row, of "[replicate 16777217 0]" "[5]"]
  have r4: "map_option returned ?E4 = Some True" by (rule a(2))
  have r3: "map_option returned ?E3 = Some True" by (rule t(2))
  have rP: "map_option returned ?EP = Some True" by (rule b(2))
  have e4: "jacobian_entry ?E4 0 16777216 = Some 9"
    by (simp add: a(1) n4)
  have e3: "jacobian_entry ?E3 0 16777216 = Some 1"
    by (simp add: t(1) n3)
  have eP: "jacobian_entry ?EP 0 16777216 = Some 1"
    by (simp add: b(1) nP)
  have dP: "map_option jacobians_out ?E4 \<noteq> map_option jacobians_out ?EP"
  proof
    assume "map_option jacobians_out ?E4 = map_option jacobians_out ?EP"
    then have "jacobian_entry ?E4 0 16777216 = jacobian_entry ?EP 0 16777216"
      by (rule jacobian_entry_cong)
    then show False by (simp add: e4 eP)
  qed
  have d3: "map_option jacobians_out ?E4 \<noteq> map_option jacobians_out ?E3"
  proof
    assume "map_option jacobians_out ?E4 = map_option jacobians_out ?E3"
    then have "jacobian_entry ?E4 0 16777216 = jacobian_entry ?E3 0 16777216"
      by (rule jacobian_entry_cong)
    then show False by (simp add: e4 e3)
  qed
  show ?thesis using n4 n3 nP r4 e4 r3 e3 rP eP dP d3 by (intro conjI)
qed

text \<open>
  C5, as stated: with jacobians requested \<open>Evaluate\<close> makes exactly
  \<open>ceil(P / Stride)\<close> passes and copies the residuals once, on the final pass. It fails
  when the functor returns false: on \<open>failing_cost_function\<close>, with 3 parameters and
  \<open>Stride = 2\<close>, the functor is called once, not twice, and the residual buffer is never
  written.
\<close>

theorem evaluation_can_stop_before_the_last_pass:
  "Evaluate failing_cost_function 2 [[1, 2], [3]] [5, 5] (Some [[9, 9, 9, 9], [9, 9]])
     = Some failing_evaluation \<and>
   length (calls failing_evaluation) = 1 \<and>
   num_strides_of (sum_list (parameter_block_sizes failing_cost_function)) 2 = 2 \<and>
   residuals_out failing_evaluation = [5, 5]"
  by (simp add: failing_run)
     (simp add: failing_evaluation_def failing_cost_function_def)

text \<open>
  C5, amended: when jacobians are requested and \<open>Evaluate\<close> returns true (the functor
  returned true on every pass), with \<open>Stride \<ge> 1\<close> and \<open>1 \<le> P \<le> 2 ^ 24\<close> parameters, a range
  in which the count that the source computes in single precision is exact: the functor
  was called exactly \<open>ceil(P / Stride) = (P + Stride - 1) div Stride\<close> times; in call \<open>q\<close>
  the input jet of cursor \<open>c\<close> carries the parameter's value and a derivative part that is
  zero except for a 1 in slot \<open>c - q * Stride\<close> when \<open>c\<close> lies in the active section; the
  copy loop of a pass writes only entries of columns of its active section, so that the
  entries of column \<open>c\<close> in the buffers come from the output of pass \<open>c div Stride\<close> and
  every other entry is as the caller left it; the residual buffer is written by the final
  pass only, from the value parts of its output.
\<close>

theorem successful_evaluation_runs_every_pass:
  assumes "Evaluate cf Stride parameters residuals (Some jacobians) = Some E"
      and "returned E"
      and "1 \<le> Stride"
      and "1 \<le> sum_list (parameter_block_sizes cf)"
      and "sum_list (parameter_block_sizes cf) \<le> 2 ^ 24"
  shows "length (calls E) = num_strides_of (sum_list (parameter_block_sizes cf)) Stride \<and>
         num_strides_of (sum_list (parameter_block_sizes cf)) Stride
           = (sum_list (parameter_block_sizes cf) + Stride - 1) div Stride \<and>
         (\<forall>q < length (calls E).
            fst (calls E ! q)
              = map (\<lambda>(i, j, c).
                       \<lparr>jet_a = parameters ! i ! j,
                        jet_v = derivative_seed Stride (q * Stride)
                                  (min ((q + 1) * Stride) (sum_list (parameter_block_sizes cf))) c\<rparr>)
                    (parameter_cursors (parameter_block_sizes cf)) \<and>
            fst (snd (calls E ! q))) \<and>
         (\<forall>q c t. c < sum_list (parameter_block_sizes cf) \<longrightarrow> t < Stride \<longrightarrow>
            derivative_seed Stride (q * Stride)
              (min ((q + 1) * Stride) (sum_list (parameter_block_sizes cf))) c ! t
              = (if c = q * Stride + t then 1 else 0)) \<and>
         (\<exists>J. jacobians_out E = Some J \<and> length J = length jacobians \<and>
              (\<forall>i. length (J ! i) = length (jacobians ! i)) \<and>
              (\<forall>i j c k. (i, j, c) \<in> set (parameter_cursors (parameter_block_sizes cf)) \<longrightarrow>
                  k < num_residuals cf \<longrightarrow> i < length jacobians \<longrightarrow>
                  k * parameter_block_sizes cf ! i + j < length (jacobians ! i) \<longrightarrow>
                  J ! i ! (k * parameter_block_sizes cf ! i + j)
                    = jet_v (snd (snd (calls E ! (c div Stride))) ! k) ! (c mod Stride)) \<and>
              (\<forall>i off. (\<forall>j c k. (i, j, c) \<in> set (parameter_cursors (parameter_block_sizes cf)) \<longrightarrow>
                          k < num_residuals cf \<longrightarrow>
                          off \<noteq> k * parameter_block_sizes cf ! i + j) \<longrightarrow>
                  J ! i ! off = jacobians ! i ! off)) \<and>
         (\<forall>q out jacs i off.
            (\<forall>j c k. (i, j, c) \<in> set (parameter_cursors (parameter_block_sizes cf)) \<longrightarrow>
                q * Stride \<le> c \<longrightarrow>
                c < min ((q + 1) * Stride) (sum_list (parameter_block_sizes cf)) \<longrightarrow>
                k < num_residuals cf \<longrightarrow> off \<noteq> k * parameter_block_sizes cf ! i + j) \<longrightarrow>
            copy_jacobian (parameter_block_sizes cf) (num_residuals cf) (q * Stride)
                (min ((q + 1) * Stride) (sum_list (parameter_block_sizes cf))) out jacs ! i ! off
              = jacs ! i ! off) \<and>
         (\<forall>q st. q \<noteq> num_strides_of (sum_list (parameter_block_sizes cf)) Stride - 1 \<longrightarrow>
            residuals_buf (snd (pass_body cf Stride
                (num_strides_of (sum_list (parameter_block_sizes cf)) Stride) q st))
              = residuals_buf st) \<and>
         residuals_out E
           = copy_residuals (num_residuals cf) (snd (snd (last (calls E)))) residuals \<and>
         (\<forall>k < num_residuals cf. k < length residuals \<longrightarrow>
            residuals_out E ! k = jet_a (snd (snd (last (calls E))) ! k))"
proof -
  let ?sizes = "parameter_block_sizes cf"
  let ?P = "sum_list ?sizes"
  let ?N = "num_strides_of ?P Stride"
  let ?st0 = "scratch cf Stride parameters residuals jacobians"
  have S: "0 < Stride" using assms(3) by simp
  from assms(1) obtain st where p0: "passes cf Stride ?N [0..<?N] ?st0 = (returned E, st)"
    and res: "residuals_out E = residuals_buf st"
    and jac: "jacobians_out E = Some (jacobians_buf st)"
    and cal: "calls E = functor_calls st"
    by (rule Evaluate_Some)
  from p0 assms(2) have p: "passes cf Stride ?N [0..<?N] ?st0 = (True, st)" by simp
  note C = passes_calls[OF p scratch_fields(1) scratch_fields(2)]
  note R = passes_residuals[OF p order_refl]
  have cover: "\<And>c. c < ?P \<Longrightarrow> c < ?N * Stride"
    using strides_cover[OF S assms(5)] by simp
  have n: "length (calls E) = ?N" using C by (simp add: cal)
  have d: "?N = (?P + Stride - 1) div Stride" using S assms(5) by (rule num_strides_of_div)
  have inputs: "\<forall>q < length (calls E).
            fst (calls E ! q)
              = map (\<lambda>(i, j, c).
                       \<lparr>jet_a = parameters ! i ! j,
                        jet_v = derivative_seed Stride (q * Stride) (min ((q + 1) * Stride) ?P) c\<rparr>)
                    (parameter_cursors ?sizes) \<and>
            fst (snd (calls E ! q))"
    using C by (simp add: cal scratch_derivatives)
  have seeds: "\<forall>q c t. c < ?P \<longrightarrow> t < Stride \<longrightarrow>
            derivative_seed Stride (q * Stride) (min ((q + 1) * Stride) ?P) c ! t
              = (if c = q * Stride + t then 1 else 0)"
    by (intro allI impI section_seed)
  have written: "\<forall>i j c k. (i, j, c) \<in> set (parameter_cursors ?sizes) \<longrightarrow>
                  k < num_residuals cf \<longrightarrow> i < length jacobians \<longrightarrow>
                  k * ?sizes ! i + j < length (jacobians ! i) \<longrightarrow>
                  jacobians_buf st ! i ! (k * ?sizes ! i + j)
                    = jet_v (snd (snd (calls E ! (c div Stride))) ! k) ! (c mod Stride)"
  proof (intro allI impI)
    fix i j c k
    assume m: "(i, j, c) \<in> set (parameter_cursors ?sizes)" and k: "k < num_residuals cf"
      and i: "i < length jacobians" and r: "k * ?sizes ! i + j < length (jacobians ! i)"
    have c: "c < ?N * Stride" using parameter_cursors_bound[OF m] by (rule cover)
    show "jacobians_buf st ! i ! (k * ?sizes ! i + j)
                 = jet_v (snd (snd (calls E ! (c div Stride))) ! k) ! (c mod Stride)"
      unfolding cal
      using p scratch_fields(1) scratch_fields(2) assms(3) m c k
      by (rule passes_jacobians_written) (simp_all add: i r)
  qed
  have untouched: "\<forall>i off. (\<forall>j c k. (i, j, c) \<in> set (parameter_cursors ?sizes) \<longrightarrow>
                          k < num_residuals cf \<longrightarrow> off \<noteq> k * ?sizes ! i + j) \<longrightarrow>
                  jacobians_buf st ! i ! off = jacobians ! i ! off"
  proof (intro allI impI)
    fix i off
    assume no: "\<forall>j c k. (i, j, c) \<in> set (parameter_cursors ?sizes) \<longrightarrow>
                          k < num_residuals cf \<longrightarrow> off \<noteq> k * ?sizes ! i + j"
    have "jacobians_buf st ! i ! off = jacobians_buf ?st0 ! i ! off"
      using p scratch_fields(1) scratch_fields(2) assms(3)
    proof (rule passes_jacobians_untouched)
      fix j c k
      assume "(i, j, c) \<in> set (parameter_cursors ?sizes)" "k < num_residuals cf"
      then show "off \<noteq> k * ?sizes ! i + j" using no by blast
    qed
    then show "jacobians_buf st ! i ! off = jacobians ! i ! off" by simp
  qed
  have lens: "length (jacobians_buf st) = length jacobians"
    "\<forall>i. length (jacobians_buf st ! i) = length (jacobians ! i)"
    using passes_jacobians_length[OF p scratch_fields(1) scratch_fields(2) assms(3)] by simp_all
  have jacs: "\<exists>J. jacobians_out E = Some J \<and> length J = length jacobians \<and>
              (\<forall>i. length (J ! i) = length (jacobians ! i)) \<and>
              (\<forall>i j c k. (i, j, c) \<in> set (parameter_cursors ?sizes) \<longrightarrow>
                  k < num_residuals cf \<longrightarrow> i < length jacobians \<longrightarrow>
                  k * ?sizes ! i + j < length (jacobians ! i) \<longrightarrow>
                  J ! i ! (k * ?sizes ! i + j)
                    = jet_v (snd (snd (calls E ! (c div Stride))) ! k) ! (c mod Stride)) \<and>
              (\<forall>i off. (\<forall>j c k. (i, j, c) \<in> set (parameter_cursors ?sizes) \<longrightarrow>
                          k < num_residuals cf \<longrightarrow> off \<noteq> k * ?sizes ! i + j) \<longrightarrow>
                  J ! i ! off = jacobians ! i ! off)"
    using jac lens written untouched by blast
  have slice: "\<forall>q out jacs i off.
            (\<forall>j c k. (i, j, c) \<in> set (parameter_cursors ?sizes) \<longrightarrow> q * Stride \<le> c \<longrightarrow>
                c < min ((q + 1) * Stride) ?P \<longrightarrow>
                k < num_residuals cf \<longrightarrow> off \<noteq> k * ?sizes ! i + j) \<longrightarrow>
            copy_jacobian ?sizes (num_residuals cf) (q * Stride) (min ((q + 1) * Stride) ?P)
                out jacs ! i ! off
              = jacs ! i ! off"
    by (intro allI impI copy_jacobian_untouched) blast
  have once: "\<forall>q st. q \<noteq> ?N - 1 \<longrightarrow>
            residuals_buf (snd (pass_body cf Stride ?N q st)) = residuals_buf st"
    by (simp add: pass_body_residuals)
  have lastout: "0 < ?N \<Longrightarrow> output_jets st = snd (snd (last (calls E)))"
  proof -
    assume pos: "0 < ?N"
    then have ne: "functor_calls st \<noteq> []" using C by auto
    have "last (functor_calls st) = functor_calls st ! (?N - 1)"
      using last_conv_nth[OF ne] C by simp
    then show "output_jets st = snd (snd (last (calls E)))"
      using C pos by (simp add: cal)
  qed
  have N: "0 < ?N" using S assms(4) by (rule num_strides_of_pos)
  have "residuals_buf st = copy_residuals (num_residuals cf) (output_jets st) residuals"
    using R N by simp
  then have final: "residuals_out E
           = copy_residuals (num_residuals cf) (snd (snd (last (calls E)))) residuals"
    using lastout[OF N] by (simp only: res)
  have each: "\<forall>k < num_residuals cf. k < length residuals \<longrightarrow>
               residuals_out E ! k = jet_a (snd (snd (last (calls E))) ! k)"
  proof (intro impI allI)
    fix k
    assume "k < num_residuals cf" and "k < length residuals"
    then show "residuals_out E ! k = jet_a (snd (snd (last (calls E))) ! k)"
      by (simp only: final copy_residuals_nth if_True)
  qed
  show ?thesis
    using n d inputs seeds jacs slice once final each by blast
qed

theorem successful_evaluation_runs_every_pass_witness:
  "Evaluate example_cost_function 2 [[1, 2], [3]] [5, 5] (Some [[9, 9, 9, 9], [9, 9]])
     = Some example_evaluation \<and>
   returned example_evaluation \<and> (1 :: nat) \<le> 2 \<and>
   1 \<le> sum_list (parameter_block_sizes example_cost_function) \<and>
   sum_list (parameter_block_sizes example_cost_function) \<le> 2 ^ 24 \<and>
   length (calls example_evaluation) = 2 \<and>
   num_strides_of (sum_list (parameter_block_sizes example_cost_function)) 2 = 2 \<and>
   residuals_out example_evaluation = [17, 6] \<and>
   jacobians_out example_evaluation = Some [[1, 2, 0, 3], [4, 2]]"
proof -
  have r: "returned example_evaluation" by (simp add: example_evaluation_def)
  have s: "(1 :: nat) \<le> 2" by simp
  have p: "1 \<le> sum_list (parameter_block_sizes example_cost_function)"
    "sum_list (parameter_block_sizes example_cost_function) \<le> 2 ^ 24"
    by (simp_all add: example_cost_function_def)
  have n: "length (calls example_evaluation) = 2" by (simp add: example_evaluation_def)
  have "length (calls example_evaluation)
          = num_strides_of (sum_list (parameter_block_sizes example_cost_function)) 2"
    by (rule conjunct1[OF successful_evaluation_runs_every_pass[OF example_run r s p]])
  then have m: "num_strides_of (sum_list (parameter_block_sizes example_cost_function)) 2 = 2"
    by (simp only: n)
  have o: "residuals_out example_evaluation = [17, 6]"
    "jacobians_out example_evaluation = Some [[1, 2, 0, 3], [4, 2]]"
    by (simp_all add: example_evaluation_def)
  show ?thesis by (intro conjI example_run r s p n m o)
qed

text \<open>
  C9: \<open>Evaluate\<close> is not atomic when the functor fails. If it returns false, the
  functor returned false on the last pass that ran and true on every pass before it, no
  later pass ran, the residual buffer is unwritten, and the jacobian buffers hold, for
  every column of the sections of the earlier passes, the derivatives that these passes
  produced, every other entry being as the caller left it. On \<open>picky_cost_function\<close> the
  second pass fails and the two columns of the first pass are in the buffers.
\<close>

theorem failed_pass_leaves_earlier_columns:
  assumes "Evaluate cf Stride parameters residuals (Some jacobians) = Some E"
      and "\<not> returned E"
      and "1 \<le> Stride"
  shows "calls E \<noteq> [] \<and>
         \<not> fst (snd (last (calls E))) \<and>
         (\<forall>q < length (calls E) - 1. fst (snd (calls E ! q))) \<and>
         length (calls E) \<le> num_strides_of (sum_list (parameter_block_sizes cf)) Stride \<and>
         residuals_out E = residuals \<and>
         (\<exists>J. jacobians_out E = Some J \<and> length J = length jacobians \<and>
              (\<forall>i. length (J ! i) = length (jacobians ! i)) \<and>
              (\<forall>i j c k. (i, j, c) \<in> set (parameter_cursors (parameter_block_sizes cf)) \<longrightarrow>
                  c < (length (calls E) - 1) * Stride \<longrightarrow>
                  k < num_residuals cf \<longrightarrow> i < length jacobians \<longrightarrow>
                  k * parameter_block_sizes cf ! i + j < length (jacobians ! i) \<longrightarrow>
                  J ! i ! (k * parameter_block_sizes cf ! i + j)
                    = jet_v (snd (snd (calls E ! (c div Stride))) ! k) ! (c mod Stride)) \<and>
              (\<forall>i off. (\<forall>j c k. (i, j, c) \<in> set (parameter_cursors (parameter_block_sizes cf)) \<longrightarrow>
                          c < (length (calls E) - 1) * Stride \<longrightarrow>
                          k < num_residuals cf \<longrightarrow>
                          off \<noteq> k * parameter_block_sizes cf ! i + j) \<longrightarrow>
                  J ! i ! off = jacobians ! i ! off))"
proof -
  let ?sizes = "parameter_block_sizes cf"
  let ?P = "sum_list ?sizes"
  let ?N = "num_strides_of ?P Stride"
  let ?st0 = "scratch cf Stride parameters residuals jacobians"
  have S: "0 < Stride" using assms(3) by simp
  from assms(1) obtain st' where p0: "passes cf Stride ?N [0..<?N] ?st0 = (returned E, st')"
    and res: "residuals_out E = residuals_buf st'"
    and jac: "jacobians_out E = Some (jacobians_buf st')"
    and cal: "calls E = functor_calls st'"
    by (rule Evaluate_Some)
  from p0 assms(2) have "passes cf Stride ?N [0..<?N] ?st0 = (False, st')" by simp
  from passes_False[OF this] obtain m st where m: "m < ?N"
    and p: "passes cf Stride ?N [0..<m] ?st0 = (True, st)"
    and b: "pass_body cf Stride ?N m st = (False, st')"
    by blast
  from pass_body_False[OF b] obtain jets out where
    c': "functor_calls st' = functor_calls st @ [(jets, False, out)]"
    and j': "jacobians_buf st' = jacobians_buf st"
    and r': "residuals_buf st' = residuals_buf st"
    by auto
  note C = passes_calls[OF p scratch_fields(1) scratch_fields(2)]
  have len: "length (functor_calls st) = m" using C by simp
  have n: "length (calls E) = Suc m" by (simp add: cal c' len)
  have ne: "calls E \<noteq> []" by (simp add: cal c')
  have last: "\<not> fst (snd (last (calls E)))" by (simp add: cal c')
  have earlier: "\<forall>q < length (calls E) - 1. fst (snd (calls E ! q))"
    using C by (simp add: n) (simp add: cal c' nth_append len)
  have bound: "length (calls E) \<le> ?N" using m by (simp add: n)
  have r: "residuals_out E = residuals"
    using passes_residuals[OF p less_imp_le[OF m]] m by (simp add: res r')
  have lens: "length (jacobians_buf st') = length jacobians"
    "\<forall>i. length (jacobians_buf st' ! i) = length (jacobians ! i)"
    using passes_jacobians_length[OF p scratch_fields(1) scratch_fields(2) assms(3)]
    by (simp_all add: j')
  have written: "\<forall>i j c k. (i, j, c) \<in> set (parameter_cursors ?sizes) \<longrightarrow>
                  c < (length (calls E) - 1) * Stride \<longrightarrow>
                  k < num_residuals cf \<longrightarrow> i < length jacobians \<longrightarrow>
                  k * ?sizes ! i + j < length (jacobians ! i) \<longrightarrow>
                  jacobians_buf st' ! i ! (k * ?sizes ! i + j)
                    = jet_v (snd (snd (calls E ! (c div Stride))) ! k) ! (c mod Stride)"
  proof (intro allI impI)
    fix i j c k
    assume mem: "(i, j, c) \<in> set (parameter_cursors ?sizes)"
      and c: "c < (length (calls E) - 1) * Stride" and k: "k < num_residuals cf"
      and i: "i < length jacobians" and off: "k * ?sizes ! i + j < length (jacobians ! i)"
    have cm: "c < m * Stride" using c by (simp add: n)
    then have q: "c div Stride < m" using S by (simp add: less_mult_imp_div_less)
    have "jacobians_buf st ! i ! (k * ?sizes ! i + j)
            = jet_v (snd (snd (functor_calls st ! (c div Stride))) ! k) ! (c mod Stride)"
      using p scratch_fields(1) scratch_fields(2) assms(3) mem cm k
      by (rule passes_jacobians_written) (simp_all add: i off)
    then show "jacobians_buf st' ! i ! (k * ?sizes ! i + j)
                 = jet_v (snd (snd (calls E ! (c div Stride))) ! k) ! (c mod Stride)"
      using q by (simp add: j' cal c' nth_append len)
  qed
  have untouched: "\<forall>i off. (\<forall>j c k. (i, j, c) \<in> set (parameter_cursors ?sizes) \<longrightarrow>
                          c < (length (calls E) - 1) * Stride \<longrightarrow>
                          k < num_residuals cf \<longrightarrow> off \<noteq> k * ?sizes ! i + j) \<longrightarrow>
                  jacobians_buf st' ! i ! off = jacobians ! i ! off"
  proof (intro allI impI)
    fix i off
    assume no: "\<forall>j c k. (i, j, c) \<in> set (parameter_cursors ?sizes) \<longrightarrow>
                          c < (length (calls E) - 1) * Stride \<longrightarrow>
                          k < num_residuals cf \<longrightarrow> off \<noteq> k * ?sizes ! i + j"
    have "jacobians_buf st ! i ! off = jacobians_buf ?st0 ! i ! off"
      using p scratch_fields(1) scratch_fields(2) assms(3)
    proof (rule passes_jacobians_untouched)
      fix j c k
      assume "(i, j, c) \<in> set (parameter_cursors ?sizes)" "c < m * Stride" "k < num_residuals cf"
      then show "off \<noteq> k * ?sizes ! i + j" using no by (simp add: n)
    qed
    then show "jacobians_buf st' ! i ! off = jacobians ! i ! off" by (simp add: j')
  qed
  have "\<exists>J. jacobians_out E = Some J \<and> length J = length jacobians \<and>
              (\<forall>i. length (J ! i) = length (jacobians ! i)) \<and>
              (\<forall>i j c k. (i, j, c) \<in> set (parameter_cursors ?sizes) \<longrightarrow>
                  c < (length (calls E) - 1) * Stride \<longrightarrow>
                  k < num_residuals cf \<longrightarrow> i < length jacobians \<longrightarrow>
                  k * ?sizes ! i + j < length (jacobians ! i) \<longrightarrow>
                  J ! i ! (k * ?sizes ! i + j)
                    = jet_v (snd (snd (calls E ! (c div Stride))) ! k) ! (c mod Stride)) \<and>
              (\<forall>i off. (\<forall>j c k. (i, j, c) \<in> set (parameter_cursors ?sizes) \<longrightarrow>
                          c < (length (calls E) - 1) * Stride \<longrightarrow>
                          k < num_residuals cf \<longrightarrow> off \<noteq> k * ?sizes ! i + j) \<longrightarrow>
                  J ! i ! off = jacobians ! i ! off)"
    using jac lens written untouched by blast
  then show ?thesis
    using ne last earlier bound r by blast
qed

theorem failed_pass_leaves_earlier_columns_witness:
  "Evaluate picky_cost_function 2 [[1, 2], [3]] [5, 5] (Some [[9, 9, 9, 9], [9, 9]])
     = Some picky_evaluation \<and>
   \<not> returned picky_evaluation \<and> (1 :: nat) \<le> 2 \<and>
   length (calls picky_evaluation) = 2 \<and>
   fst (snd (calls picky_evaluation ! 0)) \<and>
   \<not> fst (snd (last (calls picky_evaluation))) \<and>
   residuals_out picky_evaluation = [5, 5] \<and>
   jacobians_out picky_evaluation = Some [[1, 2, 0, 3], [9, 9]]"
proof -
  have r: "\<not> returned picky_evaluation" by (simp add: picky_evaluation_def)
  have s: "(1 :: nat) \<le> 2" by simp
  note T = failed_pass_leaves_earlier_columns[OF picky_run r s]
  have l: "\<not> fst (snd (last (calls picky_evaluation)))"
    by (rule conjunct1[OF conjunct2[OF T]])
  have u: "residuals_out picky_evaluation = [5, 5]"
    by (rule conjunct1[OF conjunct2[OF conjunct2[OF conjunct2[OF conjunct2[OF T]]]]])
  have o: "length (calls picky_evaluation) = 2" "fst (snd (calls picky_evaluation ! 0))"
    "jacobians_out picky_evaluation = Some [[1, 2, 0, 3], [9, 9]]"
    by (simp_all add: picky_evaluation_def)
  show ?thesis by (intro conjI picky_run r s o l u)
qed

end
